theory Spec2Isabelle
  imports Complex_Main "HOL-Library.Sublist" "HOL-Library.Multiset"
begin

section \<open>JavaScript values and strings\<close>

text \<open>
  A JavaScript string is a sequence of UTF-16 code units. The model uses \<^typ>\<open>string\<close>, so a
  \<^typ>\<open>char\<close> stands for a code unit below 256 (the Latin-1 range). A number is
  modelled by its exact value, a \<^typ>\<open>rat\<close>; where the source divides, multiplies or adds
  numbers that need not be integers, the model rounds the exact result to the nearest
  double, as the machine does (see below). Counts and indices are \<^typ>\<open>nat\<close> or
  \<^typ>\<open>int\<close>.
\<close>

datatype jsval = JUndefined | JNull | JBool bool | JNum rat | JStr string | JObject

text \<open>Truthiness as used by \<open>!x\<close>, \<open>x || y\<close> and \<open>if (x)\<close>.\<close>

fun truthy :: "jsval \<Rightarrow> bool" where
  "truthy JUndefined = False"
| "truthy JNull = False"
| "truthy (JBool b) = b"
| "truthy (JNum n) = (n \<noteq> 0)"
| "truthy (JStr s) = (s \<noteq> [])"
| "truthy JObject = True"

datatype js_error = TypeError

definition code_unit :: "char \<Rightarrow> nat" where
  "code_unit c = of_char c"

text \<open>\<open>String.prototype.toLowerCase\<close> on the Latin-1 range: A-Z, and the accented capitals
  U+00C0..U+00DE without the multiplication sign U+00D7, move up by 32.\<close>

definition toLowerChar :: "char \<Rightarrow> char" where
  "toLowerChar c =
     (let n = code_unit c in
      if (65 \<le> n \<and> n \<le> 90) \<or> (192 \<le> n \<and> n \<le> 214) \<or> (216 \<le> n \<and> n \<le> 222)
      then char_of (n + 32) else c)"

definition toLowerCase :: "string \<Rightarrow> string" where
  "toLowerCase s = map toLowerChar s"

text \<open>The regular-expression class \<open>\w\<close> (no unicode flag): \<open>[A-Za-z0-9_]\<close>.\<close>

definition is_word_char :: "char \<Rightarrow> bool" where
  "is_word_char c =
     (let n = code_unit c in
      (48 \<le> n \<and> n \<le> 57) \<or> (65 \<le> n \<and> n \<le> 90) \<or> n = 95 \<or> (97 \<le> n \<and> n \<le> 122))"

text \<open>The class \<open>\s\<close>, which is also what \<open>trim\<close> removes: tab, line feed, vertical tab,
  form feed, carriage return, space and U+00A0.\<close>

definition is_space :: "char \<Rightarrow> bool" where
  "is_space c = (code_unit c \<in> {9, 10, 11, 12, 13, 32, 160})"

definition trim :: "string \<Rightarrow> string" where
  "trim s = rev (dropWhile is_space (rev (dropWhile is_space s)))"

text \<open>\<open>s.includes(t)\<close>: \<open>t\<close> occurs in \<open>s\<close> as a contiguous substring.\<close>

fun includes' :: "string \<Rightarrow> string \<Rightarrow> bool" where
  "includes' [] t = (t = [])"
| "includes' (c # s) t = (prefix t (c # s) \<or> includes' s t)"

text \<open>\<open>Math.round\<close>: the nearest integer, ties towards plus infinity.\<close>

definition js_round :: "rat \<Rightarrow> int" where
  "js_round x = \<lfloor>x + 1 / 2\<rfloor>"

subsection \<open>Double-precision arithmetic\<close>

text \<open>
  A finite double is a rational \<open>m * 2^k\<close> with \<open>|m| < 2^53\<close>. Every arithmetic operation
  of the language returns the double nearest to the exact result, a tie going to the even
  significand. \<open>binary_exponent x\<close> is the \<open>e\<close> with \<open>2^e \<le> x < 2^(e+1)\<close> for \<open>x > 0\<close>; the
  spacing of the doubles around \<open>x\<close> is \<open>2^(e - 52)\<close>, with \<open>e\<close> at least \<open>-1022\<close> (below that
  the doubles are subnormal and equally spaced). Overflow to infinity is left out: the
  values computed here stay below 128.
\<close>

function bit_length :: "int \<Rightarrow> nat" where
  "bit_length n = (if n \<le> 0 then 0 else Suc (bit_length (n div 2)))"
  by pat_completeness auto
termination
  by (relation "measure nat") auto

declare bit_length.simps [simp del]

definition pow2 :: "int \<Rightarrow> rat" where
  "pow2 k = (if 0 \<le> k then 2 ^ nat k else 1 / 2 ^ nat (- k))"

definition binary_exponent :: "rat \<Rightarrow> int" where
  "binary_exponent x =
     (if 1 \<le> x then int (bit_length \<lfloor>x\<rfloor>) - 1
      else - int (bit_length (\<lceil>1 / x\<rceil> - 1)))"

definition round_half_even :: "rat \<Rightarrow> int" where
  "round_half_even x =
     (let f = \<lfloor>x\<rfloor>; r = x - of_int f
      in if r < 1 / 2 then f else if 1 / 2 < r then f + 1 else if even f then f else f + 1)"

definition round_double :: "rat \<Rightarrow> rat" where
  "round_double x =
     (if x = 0 then 0
      else let e = max (binary_exponent \<bar>x\<bar>) (- 1022);
               ulp = pow2 (e - 52)
           in of_int (round_half_even (x / ulp)) * ulp)"

text \<open>The operators \<open>/\<close>, \<open>*\<close> and \<open>+\<close> on doubles.\<close>

definition double_div :: "rat \<Rightarrow> rat \<Rightarrow> rat" where
  "double_div x y = round_double (x / y)"

definition double_mul :: "rat \<Rightarrow> rat \<Rightarrow> rat" where
  "double_mul x y = round_double (x * y)"

definition double_add :: "rat \<Rightarrow> rat \<Rightarrow> rat" where
  "double_add x y = round_double (x + y)"


section \<open>The similarity scorer (validation-service.ts)\<close>

subsection \<open>cleanCompanyName\<close>

definition suffix_words :: "string list" where
  "suffix_words =
     [''inc'', ''incorporated'', ''corp'', ''corporation'', ''llc'', ''ltd'', ''limited'',
      ''co'', ''company'', ''plc'', ''gmbh'', ''sa'', ''ag'', ''bv'', ''nv'']"

definition punctuation :: string where
  "punctuation = ''.,/#!$%^&*;:{}=-_`~()''"

text \<open>
  First replacement, \<open>/\b(inc|incorporated|...|nv)\b/gi\<close> by the empty string. Every
  alternative consists of word characters only, so between two \<open>\b\<close> a match is a maximal
  run of word characters; the run is deleted when it equals one of the words, letter case
  ignored. \<open>strip_suffix_words w s\<close> scans \<open>s\<close> with the current run \<open>w\<close>.
\<close>

definition flush_word :: "string \<Rightarrow> string" where
  "flush_word w = (if toLowerCase w \<in> set suffix_words then [] else w)"

fun strip_suffix_words :: "string \<Rightarrow> string \<Rightarrow> string" where
  "strip_suffix_words w [] = flush_word w"
| "strip_suffix_words w (c # s) =
     (if is_word_char c then strip_suffix_words (w @ [c]) s
      else flush_word w @ c # strip_suffix_words [] s)"

text \<open>Second replacement: every character of the punctuation class is deleted.\<close>

definition strip_punctuation :: "string \<Rightarrow> string" where
  "strip_punctuation s = filter (\<lambda>c. c \<notin> set punctuation) s"

text \<open>Third replacement, \<open>/\s+/g\<close> by one space; the flag says that the previous character
  was white space, so that the run has already produced its space.\<close>

fun collapse_spaces :: "bool \<Rightarrow> string \<Rightarrow> string" where
  "collapse_spaces in_run [] = []"
| "collapse_spaces in_run (c # s) =
     (if is_space c then (if in_run then collapse_spaces True s
                          else CHR '' '' # collapse_spaces True s)
      else c # collapse_spaces False s)"

definition cleanCompanyName :: "string \<Rightarrow> string" where
  "cleanCompanyName name =
     trim (collapse_spaces False (strip_punctuation (strip_suffix_words [] name)))"

subsection \<open>levenshteinDistance\<close>

text \<open>
  The source fills a table \<open>dp[0..m][0..n]\<close> row by row. \<open>next_row c t prev left\<close> computes
  the cells \<open>dp[i][j..n]\<close> of the row of character \<open>c = s1[i-1]\<close>: \<open>t\<close> is \<open>s2[j-1..]\<close>,
  \<open>prev\<close> is \<open>dp[i-1][j-1..n]\<close> and \<open>left\<close> is \<open>dp[i][j-1]\<close>.
\<close>

fun next_row :: "char \<Rightarrow> string \<Rightarrow> nat list \<Rightarrow> nat \<Rightarrow> nat list" where
  "next_row c (d # t) (diag # up # prev) left =
     (let v = (if c = d then diag else 1 + min up (min left diag))
      in v # next_row c t (up # prev) v)"
| "next_row c t prev left = []"

text \<open>Row \<open>i\<close> from row \<open>i - 1\<close>: \<open>dp[i][0] = i\<close>, which is \<open>dp[i-1][0] + 1\<close>.\<close>

definition row_step :: "string \<Rightarrow> char \<Rightarrow> nat list \<Rightarrow> nat list" where
  "row_step s2 c prev = (let first = Suc (hd prev) in first # next_row c s2 prev first)"

text \<open>Row \<open>0\<close> is \<open>dp[0][j] = j\<close>; the result is \<open>dp[m][n]\<close>, the last cell of the last row.\<close>

definition levenshteinDistance :: "string \<Rightarrow> string \<Rightarrow> nat" where
  "levenshteinDistance s1 s2 = last (fold (row_step s2) s1 [0 ..< Suc (length s2)])"

subsection \<open>calculateSimilarity and simpleFuzzyMatch\<close>

text \<open>
  \<open>((maxLen - distance) / maxLen) * 100\<close> and \<open>ratio + 15\<close> are computed in doubles: the
  difference of the two lengths is an integer and exact, the quotient is rounded, the
  product is rounded, and so is the sum.
\<close>

definition calculateSimilarity :: "string \<Rightarrow> string \<Rightarrow> rat" where
  "calculateSimilarity s1 s2 =
     (let cleanS1 = cleanCompanyName s1;
          cleanS2 = cleanCompanyName s2
      in if cleanS1 = cleanS2 then 95
         else
           let maxLen = max (length s1) (length s2)
           in if maxLen = 0 then 100
              else
                let distance = levenshteinDistance cleanS1 cleanS2;
                    ratio = double_mul
                              (double_div (of_nat maxLen - of_nat distance) (of_nat maxLen)) 100
                in if includes' s1 s2 \<or> includes' s2 s1 then min (double_add ratio 15) 95
                   else ratio)"

text \<open>\<open>Array.prototype.sort\<close> is stable; \<open>sort_key\<close> is a stable insertion sort, and the
  comparator \<open>b[1] - a[1]\<close> orders by descending score (the difference of two different
  doubles is never rounded to zero, so its sign is the sign of the comparison).\<close>

definition simpleFuzzyMatch :: "string \<Rightarrow> string list \<Rightarrow> nat \<Rightarrow> (string \<times> rat) list" where
  "simpleFuzzyMatch query choices limit =
     (let results =
            map (\<lambda>choice. (choice, calculateSimilarity (toLowerCase query) (toLowerCase choice)))
              choices
      in take limit (sort_key (\<lambda>r. - snd r) results))"


subsection \<open>The scorer in the words of the specification\<close>

text \<open>
  The edit distance with single-character insertion, deletion and substitution at unit
  cost: \<open>edits a b n\<close> says that \<open>n\<close> such steps, applied from left to right, turn \<open>a\<close> into
  \<open>b\<close>, and the distance is the least such \<open>n\<close>. \<open>edit_distance\<close> is the classic recurrence
  for it.
\<close>

inductive edits :: "'a list \<Rightarrow> 'a list \<Rightarrow> nat \<Rightarrow> bool" where
  stop: "edits [] [] 0"
| keep: "edits a b n \<Longrightarrow> edits (x # a) (x # b) n"
| sub: "edits a b n \<Longrightarrow> edits (x # a) (y # b) (Suc n)"
| del: "edits a b n \<Longrightarrow> edits (x # a) b (Suc n)"
| ins: "edits a b n \<Longrightarrow> edits a (y # b) (Suc n)"

fun edit_distance :: "'a list \<Rightarrow> 'a list \<Rightarrow> nat" where
  "edit_distance [] ys = length ys"
| "edit_distance xs [] = length xs"
| "edit_distance (x # xs) (y # ys) =
     (if x = y then edit_distance xs ys
      else 1 + min (edit_distance xs (y # ys))
                   (min (edit_distance (x # xs) ys) (edit_distance xs ys)))"

text \<open>
  Section 4.2 of the specification, step by step: both strings are normalised (lower case,
  suffix words, punctuation, white space); identical non-empty normal forms score 95;
  otherwise the score is \<open>round(((max_len - distance) / max_len) * 100)\<close> over the
  normalised strings, 100 when \<open>max_len = 0\<close>, and 15 more, capped at 95, when one
  normalised string contains the other. The formula is read as written, over exact
  numbers.
\<close>

definition spec_similarity :: "string \<Rightarrow> string \<Rightarrow> int" where
  "spec_similarity a b =
     (let na = cleanCompanyName (toLowerCase a);
          nb = cleanCompanyName (toLowerCase b)
      in if na = nb \<and> na \<noteq> [] then 95
         else
           let max_len = max (length na) (length nb)
           in if max_len = 0 then 100
              else
                let distance = edit_distance na nb;
                    ratio = js_round (((of_nat max_len - of_nat distance) / of_nat max_len) * 100)
                in if includes' na nb \<or> includes' nb na then min (ratio + 15) 95
                   else ratio)"


section \<open>The field validation engine (validation-service.ts)\<close>

record named_code =
  code :: string
  name :: string

record MasterDataItem = named_code +
  description :: "string option"

record alternative = named_code +
  score :: int

record gpt_selection = named_code +
  confidence' :: int

datatype status = exact | fuzzy_high | fuzzy_medium | fuzzy_low | no_match

record ValidationResult =
  field :: string
  extracted_value :: jsval
  matched_code :: "string option"
  matched_name :: "string option"
  confidence :: int
  status :: status
  alternatives :: "alternative list"

record document_context =
  vendor :: jsval
  amount :: jsval
  date :: jsval
  description' :: jsval

subsection \<open>External collaborators\<close>

text \<open>
  The data store answers a query with an error or with rows (possibly \<open>null\<close>); a client
  that throws instead of answering is not modelled. The chat completion either makes the
  body of \<open>selectBestMatchWithGPT\<close> throw (network failure, unparsable content, a
  non-integer index), which its \<open>catch\<close> turns into \<open>null\<close>, or yields a JSON object
  whose \<open>selected_index\<close> and \<open>confidence\<close> are integers or absent.
\<close>

datatype supabase_response = SbError | SbData "MasterDataItem list option"

datatype gpt_reply = GptThrows | GptJson "int option" "int option"

text \<open>\<open>dataTypeMap[fieldName] || fieldName\<close> reads an object literal, so a name that
  \<open>Object.prototype\<close> defines yields that inherited member instead of a category string.\<close>

datatype data_type = Category string | PrototypeMember string

record services =
  supabase :: "string \<Rightarrow> data_type \<Rightarrow> supabase_response"
  openai :: "string \<Rightarrow> alternative list \<Rightarrow> string \<Rightarrow> document_context option \<Rightarrow> gpt_reply"

definition LIST_MATCH_FIELDS :: "(string \<times> nat \<times> string) list" where
  "LIST_MATCH_FIELDS =
     [(''company_code'', 4, ''Company Code''),
      (''transaction_type'', 1, ''Transaction Type (1=Invoice, 2=Credit)''),
      (''invoicing_party'', 10, ''Vendor/Invoicing Party''),
      (''document_type'', 2, ''Document Type''),
      (''gl_account'', 10, ''GL Account''),
      (''debit_credit'', 1, ''Debit/Credit (S=Debit, H=Credit)''),
      (''tax_code'', 2, ''Tax Code''),
      (''tax_jurisdiction'', 15, ''Tax Jurisdiction''),
      (''assignment'', 18, ''Assignment Reference''),
      (''cost_center'', 10, ''Cost Center''),
      (''profit_center'', 10, ''Profit Center''),
      (''order_number'', 12, ''Order Number''),
      (''wbs_element'', 24, ''WBS Element'')]"

definition dataTypeMap :: "(string \<times> string) list" where
  "dataTypeMap =
     [(''invoicing_party'', ''vendor''),
      (''supplier_name'', ''vendor''),
      (''vendor_name'', ''vendor''),
      (''gl_account'', ''gl_account''),
      (''cost_center'', ''cost_center''),
      (''company_code'', ''company_code''),
      (''document_type'', ''document_type''),
      (''tax_code'', ''tax_code''),
      (''profit_center'', ''profit_center''),
      (''transaction_type'', ''transaction_type''),
      (''debit_credit'', ''debit_credit'')]"

definition object_prototype_members :: "string list" where
  "object_prototype_members =
     [''constructor'', ''__proto__'', ''hasOwnProperty'', ''isPrototypeOf'',
      ''propertyIsEnumerable'', ''toLocaleString'', ''toString'', ''valueOf'',
      ''__defineGetter__'', ''__defineSetter__'', ''__lookupGetter__'', ''__lookupSetter__'']"

definition dataType_of :: "string \<Rightarrow> data_type" where
  "dataType_of fieldName =
     (case map_of dataTypeMap fieldName of
        Some d \<Rightarrow> Category d
      | None \<Rightarrow> if fieldName \<in> set object_prototype_members then PrototypeMember fieldName
                else Category fieldName)"

subsection \<open>fetchMasterData\<close>

definition fetchMasterData :: "services \<Rightarrow> string \<Rightarrow> data_type \<Rightarrow> MasterDataItem list" where
  "fetchMasterData svc clientId dataType =
     (case supabase svc clientId dataType of
        SbError \<Rightarrow> []
      | SbData None \<Rightarrow> []
      | SbData (Some data) \<Rightarrow> data)"

subsection \<open>selectBestMatchWithGPT\<close>

definition selectBestMatchWithGPT ::
  "services \<Rightarrow> string \<Rightarrow> alternative list \<Rightarrow> string \<Rightarrow> document_context option
     \<Rightarrow> gpt_selection option" where
  "selectBestMatchWithGPT svc extractedValue candidates fieldName documentContext =
     (case openai svc extractedValue candidates fieldName documentContext of
        GptThrows \<Rightarrow> None
      | GptJson None conf \<Rightarrow> None
      | GptJson (Some selected_index) conf \<Rightarrow>
          if selected_index > 0 \<and> selected_index \<le> int (length candidates) then
            let selected = candidates ! nat (selected_index - 1)
            in Some \<lparr>code = code selected, name = name selected,
                     confidence' = (case conf of
                                      None \<Rightarrow> score selected
                                    | Some c \<Rightarrow> if c \<noteq> 0 then c else score selected)\<rparr>
          else None)"

subsection \<open>validateField\<close>

text \<open>One entry of the \<open>alternatives\<close> array: the first master-data item of that name, with
  the score rounded. A name without an item would make \<open>item.code\<close> throw.\<close>

definition toAlternative :: "MasterDataItem list \<Rightarrow> string \<times> rat \<Rightarrow> alternative option" where
  "toAlternative masterData r =
     (case find (\<lambda>i. name i = fst r) masterData of
        None \<Rightarrow> None
      | Some item \<Rightarrow> Some \<lparr>code = code item, name = name item, score = js_round (snd r)\<rparr>)"

text \<open>\<open>x?.code || null\<close> on the first alternative: an empty string is falsy.\<close>

definition or_null :: "string \<Rightarrow> string option" where
  "or_null s = (if s = [] then None else Some s)"

text \<open>The exact check: the first item whose code or name equals the value, case ignored.\<close>

definition findExactMatch :: "MasterDataItem list \<Rightarrow> string \<Rightarrow> MasterDataItem option" where
  "findExactMatch masterData v =
     find (\<lambda>item. toLowerCase (code item) = toLowerCase v
                 \<or> toLowerCase (name item) = toLowerCase v) masterData"

text \<open>The fuzzy pass and the \<open>alternatives\<close> array built from it; \<open>None\<close> stands for the
  \<open>TypeError\<close> of an entry without an item.\<close>

definition fuzzyAlternatives :: "MasterDataItem list \<Rightarrow> string \<Rightarrow> alternative list option" where
  "fuzzyAlternatives masterData v =
     (let choices = map name masterData;
          fuzzyMatches = simpleFuzzyMatch v choices 20
      in those (map (toAlternative masterData) fuzzyMatches))"

definition validateField ::
  "services \<Rightarrow> jsval \<Rightarrow> string \<Rightarrow> string \<Rightarrow> document_context option
     \<Rightarrow> js_error + ValidationResult" where
  "validateField svc extractedValue fieldName clientId documentContext =
     (if \<not> truthy extractedValue then
        Inr \<lparr>field = fieldName, extracted_value = JStr [], matched_code = None,
             matched_name = None, confidence = 0, status = no_match, alternatives = []\<rparr>
      else
        let masterData = fetchMasterData svc clientId (dataType_of fieldName)
        in if masterData = [] then
             Inr \<lparr>field = fieldName, extracted_value = extractedValue, matched_code = None,
                  matched_name = None, confidence = 0, status = no_match, alternatives = []\<rparr>
           else
             case extractedValue of
               JStr v \<Rightarrow>
                 (case findExactMatch masterData v of
                    Some exactMatch \<Rightarrow>
                      Inr \<lparr>field = fieldName, extracted_value = extractedValue,
                           matched_code = Some (code exactMatch),
                           matched_name = Some (name exactMatch),
                           confidence = 100, status = exact, alternatives = []\<rparr>
                  | None \<Rightarrow>
                      (case fuzzyAlternatives masterData v of
                         None \<Rightarrow> Inl TypeError
                       | Some alts \<Rightarrow>
                           if alts \<noteq> [] \<and> score (hd alts) > 85 then
                             Inr \<lparr>field = fieldName, extracted_value = extractedValue,
                                  matched_code = Some (code (hd alts)),
                                  matched_name = Some (name (hd alts)),
                                  confidence = score (hd alts),
                                  status = (if score (hd alts) > 90 then fuzzy_high
                                            else fuzzy_medium),
                                  alternatives = take 5 (drop 1 alts)\<rparr>
                           else
                             (case (if alts \<noteq> [] \<and> score (hd alts) > 60
                                    then selectBestMatchWithGPT svc v (take 10 alts)
                                           fieldName documentContext
                                    else None) of
                                Some gptSelection \<Rightarrow>
                                  Inr \<lparr>field = fieldName, extracted_value = extractedValue,
                                       matched_code = Some (code gptSelection),
                                       matched_name = Some (name gptSelection),
                                       confidence = confidence' gptSelection,
                                       status = (if confidence' gptSelection > 75
                                                 then fuzzy_medium else fuzzy_low),
                                       alternatives =
                                         take 5 (filter (\<lambda>a. code a \<noteq> code gptSelection)
                                                   alts)\<rparr>
                              | None \<Rightarrow>
                                  Inr \<lparr>field = fieldName, extracted_value = extractedValue,
                                       matched_code =
                                         (case alts of [] \<Rightarrow> None | a # _ \<Rightarrow> or_null (code a)),
                                       matched_name =
                                         (case alts of [] \<Rightarrow> None | a # _ \<Rightarrow> or_null (name a)),
                                       confidence =
                                         (case alts of [] \<Rightarrow> 0 | a # _ \<Rightarrow> score a),
                                       status = no_match,
                                       alternatives = take 5 alts\<rparr>)))
             | _ \<Rightarrow> Inl TypeError)"

subsection \<open>validateDocumentFields\<close>

text \<open>The loop over \<open>Object.keys(LIST_MATCH_FIELDS)\<close>; a rejected \<open>validateField\<close> rejects
  the whole call.\<close>

fun validate_each ::
  "services \<Rightarrow> (string \<Rightarrow> jsval) \<Rightarrow> string \<Rightarrow> document_context \<Rightarrow> string list
     \<Rightarrow> (string \<rightharpoonup> ValidationResult) \<Rightarrow> js_error + (string \<rightharpoonup> ValidationResult)" where
  "validate_each svc extractedFields clientId ctx [] results = Inr results"
| "validate_each svc extractedFields clientId ctx (fieldName # rest) results =
     (if truthy (extractedFields fieldName) then
        (case validateField svc (extractedFields fieldName) fieldName clientId (Some ctx) of
           Inl e \<Rightarrow> Inl e
         | Inr r \<Rightarrow> validate_each svc extractedFields clientId ctx rest
                     (results(fieldName \<mapsto> r)))
      else validate_each svc extractedFields clientId ctx rest results)"

text \<open>\<open>extractedFields\<close> is a \<open>Record<string, any>\<close>: an absent key reads as \<open>undefined\<close>.\<close>

definition validateDocumentFields ::
  "services \<Rightarrow> (string \<Rightarrow> jsval) \<Rightarrow> string \<Rightarrow> js_error + (string \<rightharpoonup> ValidationResult)" where
  "validateDocumentFields svc extractedFields clientId =
     (let documentContext =
            \<lparr>vendor = (if truthy (extractedFields ''invoicing_party'')
                       then extractedFields ''invoicing_party''
                       else extractedFields ''vendor_name''),
             amount = extractedFields ''invoice_gross_amount'',
             date = extractedFields ''document_date'',
             description' = extractedFields ''document_header_text''\<rparr>
      in validate_each svc extractedFields clientId documentContext
           (map fst LIST_MATCH_FIELDS) Map.empty)"



section \<open>The block-graph decoder (the document processor module)\<close>

text \<open>
  \<open>extractText\<close> downloads the document, sends it to the layout analysis and then decodes
  the returned blocks; the model starts at the returned block list. Optional members whose
  absence the code cannot tell from an empty value (\<open>BlockType\<close>, \<open>EntityTypes\<close>,
  \<open>Relationships\<close>, \<open>Ids\<close>) are modelled by the empty value.
\<close>

type_synonym geometry = string

record relationship =
  Type :: string
  Ids :: "string list"

record block =
  Id' :: string
  BlockType :: string
  Text :: "string option"
  EntityTypes :: "string list"
  Relationships :: "relationship list"
  RowIndex :: "nat option"
  ColumnIndex :: "nat option"
  RowSpan :: "nat option"
  ColumnSpan :: "nat option"
  Confidence :: "rat option"
  Geometry :: "geometry option"

subsection \<open>Map objects\<close>

text \<open>A \<open>Map\<close> keeps its entries in insertion order; setting a key that is present
  replaces the value in place.\<close>

type_synonym 'v js_map = "(string \<times> 'v) list"

definition map_has :: "'v js_map \<Rightarrow> string \<Rightarrow> bool" where
  "map_has m k = (map_of m k \<noteq> None)"

definition map_get :: "'v js_map \<Rightarrow> string \<Rightarrow> 'v option" where
  "map_get m k = map_of m k"

definition map_set :: "string \<Rightarrow> 'v \<Rightarrow> 'v js_map \<Rightarrow> 'v js_map" where
  "map_set k v m =
     (if map_has m k then map (\<lambda>e. if fst e = k then (k, v) else e) m else m @ [(k, v)])"

subsection \<open>Arrays with holes\<close>

text \<open>
  An array object: its properties under integer keys, and its \<open>length\<close>. Writing under a
  key \<open>k \<ge> 0\<close> raises the length to at least \<open>k + 1\<close>; a write under a negative key
  creates an ordinary property and leaves the length alone. An index below the length
  without a property is a hole, which reads as \<open>undefined\<close>.
\<close>

record 'a js_array =
  props :: "int \<rightharpoonup> 'a"
  len :: nat

definition empty_array :: "'a js_array" where
  "empty_array = \<lparr>props = Map.empty, len = 0\<rparr>"

definition array_put :: "int \<Rightarrow> 'a \<Rightarrow> 'a js_array \<Rightarrow> 'a js_array" where
  "array_put k v a =
     \<lparr>props = (props a)(k \<mapsto> v),
      len = (if 0 \<le> k then max (len a) (nat k + 1) else len a)\<rparr>"

text \<open>\<open>Array.prototype.filter\<close> visits the indices below the length that have a property
  and returns a dense array.\<close>

definition array_filter :: "('a \<Rightarrow> bool) \<Rightarrow> 'a js_array \<Rightarrow> 'a list" where
  "array_filter P a =
     List.map_filter
       (\<lambda>k. case props a (int k) of None \<Rightarrow> None | Some x \<Rightarrow> if P x then Some x else None)
       [0 ..< len a]"

text \<open>The elements at the indices below the length, \<open>None\<close> for a hole: what
  \<open>row[p]\<close>, \<open>JSON.stringify\<close> or \<open>join\<close> observe of an array.\<close>

definition array_items :: "'a js_array \<Rightarrow> 'a option list" where
  "array_items a = map (\<lambda>k. props a (int k)) [0 ..< len a]"

subsection \<open>findValueBlock and getText\<close>

definition findValueBlock :: "block \<Rightarrow> block js_map \<Rightarrow> block option" where
  "findValueBlock keyBlock valueMap =
     fold (\<lambda>relationship valueBlock.
             if Type relationship = ''VALUE'' then
               fold (\<lambda>valueId valueBlock.
                       if map_has valueMap valueId then map_get valueMap valueId
                       else valueBlock)
                 (Ids relationship) valueBlock
             else valueBlock)
       (Relationships keyBlock) None"

text \<open>\<open>childBlock.Text + ' '\<close>: an absent text is concatenated as \<open>undefined\<close>.\<close>

definition text_plus_space :: "block \<Rightarrow> string" where
  "text_plus_space childBlock =
     (case Text childBlock of None \<Rightarrow> ''undefined'' | Some t \<Rightarrow> t) @ '' ''"

definition getText :: "block \<Rightarrow> block js_map \<Rightarrow> string" where
  "getText b blockMap =
     trim (fold (\<lambda>relationship text.
                   if Type relationship = ''CHILD'' then
                     fold (\<lambda>childId text.
                             case map_get blockMap childId of
                               None \<Rightarrow> text
                             | Some childBlock \<Rightarrow>
                                 if BlockType childBlock = ''WORD''
                                 then text @ text_plus_space childBlock
                                 else text)
                       (Ids relationship) text
                   else text)
             (Relationships b) [])"

subsection \<open>extractTable\<close>

record cell =
  rowIndex :: nat
  columnIndex :: nat
  text' :: string
  rowSpan :: nat
  columnSpan :: nat

record table =
  rows :: "string js_array list"
  rawCells :: "cell list"

text \<open>\<open>x || d\<close> on an optional number: absent and \<open>0\<close> both give \<open>d\<close>.\<close>

definition or_default :: "nat option \<Rightarrow> nat \<Rightarrow> nat" where
  "or_default x d = (case x of None \<Rightarrow> d | Some n \<Rightarrow> if n = 0 then d else n)"

text \<open>The object pushed onto \<open>cells\<close> for one cell block.\<close>

definition cell_of :: "block \<Rightarrow> block js_map \<Rightarrow> cell" where
  "cell_of c blockMap =
     \<lparr>rowIndex = or_default (RowIndex c) 0,
      columnIndex = or_default (ColumnIndex c) 0,
      text' = getText c blockMap,
      rowSpan = or_default (RowSpan c) 1,
      columnSpan = or_default (ColumnSpan c) 1\<rparr>"

text \<open>First loop: all cells of the table, in the order of its \<open>CHILD\<close> edges.\<close>

definition collectCells :: "block \<Rightarrow> block js_map \<Rightarrow> block js_map \<Rightarrow> cell list" where
  "collectCells tableBlock cellMap blockMap =
     fold (\<lambda>relationship cells.
             if Type relationship = ''CHILD'' then
               fold (\<lambda>cellId cells.
                       case map_get cellMap cellId of
                         None \<Rightarrow> cells
                       | Some c \<Rightarrow> cells @ [cell_of c blockMap])
                 (Ids relationship) cells
             else cells)
       (Relationships tableBlock) []"

text \<open>Second loop, one step: allocate \<open>rows[rowIndex - 1]\<close> when it is missing, then write
  the text at \<open>[columnIndex - 1]\<close> of that row.\<close>

definition placeCell :: "cell \<Rightarrow> string js_array js_array \<Rightarrow> string js_array js_array" where
  "placeCell c rs =
     (let r = int (rowIndex c) - 1;
          row = (case props rs r of None \<Rightarrow> empty_array | Some existing \<Rightarrow> existing)
      in array_put r (array_put (int (columnIndex c) - 1) (text' c) row) rs)"

definition organizeCells :: "cell list \<Rightarrow> string js_array js_array" where
  "organizeCells cells = fold placeCell cells empty_array"

definition extractTable :: "block \<Rightarrow> block js_map \<Rightarrow> block js_map \<Rightarrow> table" where
  "extractTable tableBlock cellMap blockMap =
     (let cells = collectCells tableBlock cellMap blockMap
      in \<lparr>rows = array_filter (\<lambda>row. len row > 0) (organizeCells cells),
          rawCells = cells\<rparr>)"

subsection \<open>extractText\<close>

record layout =
  titles :: "string list"
  headers :: "string list"
  sections :: "string list"
  lists' :: "string list"

record ExtractedData =
  text'' :: string
  keyValues :: "string \<rightharpoonup> string"
  tables :: "table list"
  layout :: layout
  signatures :: "(rat option \<times> geometry option) list"

record block_maps =
  blockMap :: "block js_map"
  keyMap :: "block js_map"
  valueMap :: "block js_map"
  tableMap :: "block js_map"
  cellMap :: "block js_map"

definition empty_maps :: block_maps where
  "empty_maps = \<lparr>blockMap = [], keyMap = [], valueMap = [], tableMap = [], cellMap = []\<rparr>"

text \<open>First pass, one block.\<close>

definition index_block :: "block \<Rightarrow> block_maps \<Rightarrow> block_maps" where
  "index_block b m =
     (let m1 = m\<lparr>blockMap := map_set (Id' b) b (blockMap m)\<rparr>
      in if BlockType b = ''KEY_VALUE_SET'' then
           (if ''KEY'' \<in> set (EntityTypes b)
            then m1\<lparr>keyMap := map_set (Id' b) b (keyMap m1)\<rparr>
            else m1\<lparr>valueMap := map_set (Id' b) b (valueMap m1)\<rparr>)
         else if BlockType b = ''TABLE'' then m1\<lparr>tableMap := map_set (Id' b) b (tableMap m1)\<rparr>
         else if BlockType b = ''CELL'' then m1\<lparr>cellMap := map_set (Id' b) b (cellMap m1)\<rparr>
         else m1)"

text \<open>Second pass, one block: the text of lines, the layout elements, the signatures.\<close>

record scan =
  fullText :: string
  scan_layout :: layout
  scan_signatures :: "(rat option \<times> geometry option) list"

definition empty_scan :: scan where
  "empty_scan =
     \<lparr>fullText = [], scan_layout = \<lparr>titles = [], headers = [], sections = [], lists' = []\<rparr>,
      scan_signatures = []\<rparr>"

definition text_or_empty :: "block \<Rightarrow> string" where
  "text_or_empty b = (case Text b of None \<Rightarrow> [] | Some t \<Rightarrow> t)"

definition scan_block :: "block \<Rightarrow> scan \<Rightarrow> scan" where
  "scan_block b s =
     (let s1 = (if BlockType b = ''LINE'' \<and> text_or_empty b \<noteq> []
                then s\<lparr>fullText := fullText s @ text_or_empty b @ [CHR 0x0A]\<rparr> else s);
          l = scan_layout s1;
          s2 = (if prefix ''LAYOUT_'' (BlockType b) then
                  (if BlockType b = ''LAYOUT_TITLE''
                     then s1\<lparr>scan_layout := l\<lparr>titles := titles l @ [text_or_empty b]\<rparr>\<rparr>
                   else if BlockType b = ''LAYOUT_HEADER''
                     then s1\<lparr>scan_layout := l\<lparr>headers := headers l @ [text_or_empty b]\<rparr>\<rparr>
                   else if BlockType b = ''LAYOUT_SECTION_HEADER''
                     then s1\<lparr>scan_layout := l\<lparr>sections := sections l @ [text_or_empty b]\<rparr>\<rparr>
                   else if BlockType b = ''LAYOUT_LIST''
                     then s1\<lparr>scan_layout := l\<lparr>lists' := lists' l @ [text_or_empty b]\<rparr>\<rparr>
                   else s1)
                else s1)
      in if BlockType b = ''SIGNATURE''
         then s2\<lparr>scan_signatures := scan_signatures s2 @ [(Confidence b, Geometry b)]\<rparr>
         else s2)"

text \<open>\<open>keyValues[keyText] = valueText\<close> on a plain object: the key \<open>__proto__\<close> names the
  prototype accessor, and assigning a string to it stores nothing.\<close>

definition set_property :: "(string \<rightharpoonup> string) \<Rightarrow> string \<Rightarrow> string \<Rightarrow> (string \<rightharpoonup> string)" where
  "set_property obj k v = (if k = ''__proto__'' then obj else obj(k \<mapsto> v))"

text \<open>The callback of \<open>keyMap.forEach\<close>.\<close>

definition add_key_value :: "block_maps \<Rightarrow> block \<Rightarrow> (string \<rightharpoonup> string) \<Rightarrow> (string \<rightharpoonup> string)" where
  "add_key_value m keyBlock kv =
     (case findValueBlock keyBlock (valueMap m) of
        None \<Rightarrow> kv
      | Some valueBlock \<Rightarrow>
          let keyText = getText keyBlock (blockMap m);
              valueText = getText valueBlock (blockMap m)
          in if keyText \<noteq> [] \<and> valueText \<noteq> [] then set_property kv keyText valueText
             else kv)"

text \<open>The callback of \<open>tableMap.forEach\<close>.\<close>

definition add_table :: "block_maps \<Rightarrow> block \<Rightarrow> table list \<Rightarrow> table list" where
  "add_table m tableBlock ts =
     (let t = extractTable tableBlock (cellMap m) (blockMap m)
      in if length (rows t) > 0 then ts @ [t] else ts)"

definition extractText :: "block list \<Rightarrow> ExtractedData" where
  "extractText blocks =
     (let m = fold index_block blocks empty_maps;
          s = fold scan_block blocks empty_scan
      in \<lparr>text'' = fullText s,
          keyValues = fold (\<lambda>e kv. add_key_value m (snd e) kv) (keyMap m) Map.empty,
          tables = fold (\<lambda>e ts. add_table m (snd e) ts) (tableMap m) [],
          layout = scan_layout s,
          signatures = scan_signatures s\<rparr>)"


section \<open>Example inputs\<close>

subsection \<open>Example collaborators\<close>

text \<open>A store that holds the same rows for every client and category, and an oracle whose
  call fails; used for the concrete runs below.\<close>

definition fixed_store :: "MasterDataItem list \<Rightarrow> string \<Rightarrow> data_type \<Rightarrow> supabase_response" where
  "fixed_store items clientId dataType = SbData (Some items)"

definition failing_oracle ::
  "string \<Rightarrow> alternative list \<Rightarrow> string \<Rightarrow> document_context option \<Rightarrow> gpt_reply" where
  "failing_oracle v candidates fieldName documentContext = GptThrows"

definition example_services :: "MasterDataItem list \<Rightarrow> services" where
  "example_services items = \<lparr>supabase = fixed_store items, openai = failing_oracle\<rparr>"

text \<open>An oracle that always answers with the same index and confidence.\<close>

definition choosing_oracle ::
  "int \<Rightarrow> int \<Rightarrow> string \<Rightarrow> alternative list \<Rightarrow> string \<Rightarrow> document_context option
     \<Rightarrow> gpt_reply" where
  "choosing_oracle i c v candidates fieldName documentContext = GptJson (Some i) (Some c)"

definition guided_services :: "MasterDataItem list \<Rightarrow> int \<Rightarrow> int \<Rightarrow> services" where
  "guided_services items i c = \<lparr>supabase = fixed_store items, openai = choosing_oracle i c\<rparr>"

definition one_vendor :: "string \<Rightarrow> MasterDataItem list" where
  "one_vendor n = [\<lparr>code = ''V1'', name = n, description = None\<rparr>]"

definition example_tax_codes :: "MasterDataItem list" where
  "example_tax_codes =
     [\<lparr>code = ''V0'', name = ''Tax Exempt'', description = Some ''0% tax rate''\<rparr>,
      \<lparr>code = ''V1'', name = ''Standard Rate'', description = Some ''Standard tax rate''\<rparr>]"

text \<open>A field map with one configured field that has a value, one configured field that is
  empty, and one field that is not configured.\<close>

definition example_fields :: "string \<Rightarrow> jsval" where
  "example_fields k =
     (if k = ''tax_code'' then JStr ''v1''
      else if k = ''gl_account'' then JStr []
      else if k = ''invoice_number'' then JStr ''INV-7''
      else JUndefined)"


subsection \<open>Example documents\<close>

definition blk :: "string \<Rightarrow> string \<Rightarrow> block" where
  "blk i t =
     \<lparr>Id' = i, BlockType = t, Text = None, EntityTypes = [], Relationships = [],
      RowIndex = None, ColumnIndex = None, RowSpan = None, ColumnSpan = None,
      Confidence = None, Geometry = None\<rparr>"

definition word_block :: "string \<Rightarrow> string \<Rightarrow> block" where
  "word_block i t = (blk i ''WORD'')\<lparr>Text := Some t\<rparr>"

definition children :: "string list \<Rightarrow> relationship" where
  "children ids = \<lparr>Type = ''CHILD'', Ids = ids\<rparr>"

definition cell_block :: "string \<Rightarrow> nat option \<Rightarrow> nat option \<Rightarrow> string list \<Rightarrow> block" where
  "cell_block i r c ws =
     (blk i ''CELL'')\<lparr>RowIndex := r, ColumnIndex := c, Relationships := [children ws]\<rparr>"

definition table_block :: "string \<Rightarrow> string list \<Rightarrow> block" where
  "table_block i cs = (blk i ''TABLE'')\<lparr>Relationships := [children cs]\<rparr>"

definition key_block :: "string \<Rightarrow> string list \<Rightarrow> string list \<Rightarrow> block" where
  "key_block i vs ws =
     (blk i ''KEY_VALUE_SET'')
       \<lparr>EntityTypes := [''KEY''],
        Relationships := [\<lparr>Type = ''VALUE'', Ids = vs\<rparr>, children ws]\<rparr>"

definition value_block :: "string \<Rightarrow> string list \<Rightarrow> block" where
  "value_block i ws =
     (blk i ''KEY_VALUE_SET'')\<lparr>EntityTypes := [''VALUE''], Relationships := [children ws]\<rparr>"

definition title_block :: "string \<Rightarrow> string \<Rightarrow> block" where
  "title_block i t = (blk i ''LAYOUT_TITLE'')\<lparr>Text := Some t\<rparr>"

definition line_block :: "string \<Rightarrow> string \<Rightarrow> block" where
  "line_block i t = (blk i ''LINE'')\<lparr>Text := Some t\<rparr>"

text \<open>A form whose key \<open>Total\<close> has one \<open>VALUE\<close> edge to two value regions.\<close>

definition two_values_form :: "block list" where
  "two_values_form =
     [key_block ''k1'' [''v1'', ''v2''] [''w1''],
      value_block ''v1'' [''w2''], value_block ''v2'' [''w3''],
      word_block ''w1'' ''Total'', word_block ''w2'' ''10'', word_block ''w3'' ''20'']"

text \<open>A table with a single cell, in row 1 and column 2.\<close>

definition sparse_table :: "block list" where
  "sparse_table =
     [table_block ''t1'' [''c1''], cell_block ''c1'' (Some 1) (Some 2) [''w1''],
      word_block ''w1'' ''B'']"

text \<open>A table with a cell at row 1, column 1, followed by a cell without a row index; and
  a table whose only cell has no column index.\<close>

definition unindexed_table :: "block list" where
  "unindexed_table =
     [table_block ''t1'' [''c1'', ''c2''],
      cell_block ''c1'' (Some 1) (Some 1) [''w1''], word_block ''w1'' ''A'',
      cell_block ''c2'' None (Some 1) [''w2''], word_block ''w2'' ''x'']"

definition lone_unindexed_table :: "block list" where
  "lone_unindexed_table =
     [table_block ''t1'' [''c1''],
      cell_block ''c1'' (Some 1) None [''w1''], word_block ''w1'' ''x'']"


text \<open>Two layout titles; two keys that both read \<open>Total\<close>; and a small document with
  two titles, a line and one key-value pair.\<close>

definition two_titles :: "block list" where
  "two_titles = [title_block ''a'' ''Invoice'', title_block ''b'' ''Terms'']"

definition duplicate_keys :: "block list" where
  "duplicate_keys =
     [key_block ''k1'' [''v1''] [''w1''], key_block ''k2'' [''v2''] [''w1''],
      value_block ''v1'' [''w2''], value_block ''v2'' [''w3''],
      word_block ''w1'' ''Total'', word_block ''w2'' ''10'', word_block ''w3'' ''20'']"

definition small_document :: "block list" where
  "small_document =
     [title_block ''a'' ''Invoice'', line_block ''l1'' ''Total 10'',
      key_block ''k1'' [''v1''] [''w1''], value_block ''v1'' [''w2''],
      word_block ''w1'' ''Total'', word_block ''w2'' ''10'', title_block ''b'' ''Terms'']"


section \<open>Auxiliary notions for the proofs\<close>

text \<open>A cell whose two indices are at least 1, and the relation between the rows built
  from all cells (\<open>rs1\<close>) and the rows built from those cells only (\<open>rs2\<close>): the same
  rows at the same indices, except that \<open>rs1\<close> may hold rows of length 0 where \<open>rs2\<close>
  holds none.\<close>

definition indexed :: "cell \<Rightarrow> bool" where
  "indexed c = (rowIndex c \<ge> 1 \<and> columnIndex c \<ge> 1)"

definition same_visible :: "string js_array js_array \<Rightarrow> string js_array js_array \<Rightarrow> bool" where
  "same_visible rs1 rs2 =
     (len rs2 \<le> len rs1 \<and>
      (\<forall>k. k \<ge> len rs2 \<longrightarrow> props rs2 (int k) = None) \<and>
      (\<forall>k. case props rs2 (int k) of
              Some row2 \<Rightarrow> (\<exists>row1. props rs1 (int k) = Some row1 \<and> len row1 = len row2 \<and>
                                (\<forall>p. props row1 (int p) = props row2 (int p)))
            | None \<Rightarrow> (case props rs1 (int k) of
                         None \<Rightarrow> True
                       | Some row1 \<Rightarrow> len row1 = 0 \<and> (\<forall>p. props row1 (int p) = None))))"


text \<open>The entry a block makes in a map of the first pass, and the two kinds of key-value
  blocks.\<close>

definition entry :: "block \<Rightarrow> string \<times> block" where
  "entry b = (Id' b, b)"

definition is_key :: "block \<Rightarrow> bool" where
  "is_key b = (BlockType b = ''KEY_VALUE_SET'' \<and> ''KEY'' \<in> set (EntityTypes b))"

definition is_value :: "block \<Rightarrow> bool" where
  "is_value b = (BlockType b = ''KEY_VALUE_SET'' \<and> ''KEY'' \<notin> set (EntityTypes b))"


text \<open>A row of the distance table: the distances from \<open>a\<close> (a reversed prefix of the first
  string) to the reversals of \<open>p @ q\<close>, for every prefix \<open>q\<close> of \<open>u\<close>.\<close>

definition dist_row :: "'a list \<Rightarrow> 'a list \<Rightarrow> 'a list \<Rightarrow> nat list" where
  "dist_row a p u = map (\<lambda>q. edit_distance a (rev (p @ q))) (prefixes u)"


section \<open>Properties of the similarity scorer\<close>

subsection \<open>The distance table computes the edit distance\<close>

lemma edit_distance_Nil2 [simp]: "edit_distance xs [] = length xs"
  by (cases xs) auto

lemma prefixes_split: "prefixes u = [] # tl (prefixes u)"
  by (cases u) simp_all

lemma next_row_correct:
  "next_row c u (dist_row a p u) (edit_distance (c # a) (rev p)) = tl (dist_row (c # a) p u)"
proof (induction u arbitrary: p)
  case Nil
  then show ?case by (simp add: dist_row_def)
next
  case (Cons d u)
  let ?v = "edit_distance (c # a) (rev (p @ [d]))"
  have shift: "map (\<lambda>q. edit_distance b (rev (p @ d # q))) (prefixes u) = dist_row b (p @ [d]) u"
    for b by (simp add: dist_row_def)
  have row: "dist_row a p (d # u) = edit_distance a (rev p) # dist_row a (p @ [d]) u"
    by (simp add: dist_row_def comp_def)
  have row2: "dist_row a (p @ [d]) u =
      edit_distance a (d # rev p) # tl (dist_row a (p @ [d]) u)"
    by (subst dist_row_def, subst prefixes_split) (simp add: dist_row_def map_tl)
  have v: "(if c = d then edit_distance a (rev p)
            else 1 + min (edit_distance a (d # rev p))
                       (min (edit_distance (c # a) (rev p)) (edit_distance a (rev p)))) = ?v"
    by simp
  have "next_row c (d # u) (dist_row a p (d # u)) (edit_distance (c # a) (rev p)) =
          ?v # next_row c u (dist_row a (p @ [d]) u) ?v"
    by (subst row, subst row2, simp only: next_row.simps Let_def v) (simp only: row2 [symmetric])
  also have "\<dots> = ?v # tl (dist_row (c # a) (p @ [d]) u)"
    using Cons.IH [of "p @ [d]"] by simp
  also have "\<dots> = dist_row (c # a) (p @ [d]) u"
    by (subst (2) dist_row_def, subst prefixes_split) (simp add: dist_row_def map_tl)
  also have "\<dots> = tl (dist_row (c # a) p (d # u))"
    by (simp add: dist_row_def comp_def)
  finally show ?case .
qed

lemma hd_dist_row: "hd (dist_row a [] t) = length a"
  by (subst dist_row_def, subst prefixes_split) simp

lemma row_step_correct: "row_step t c (dist_row a [] t) = dist_row (c # a) [] t"
proof -
  have "row_step t c (dist_row a [] t) = Suc (length a) # tl (dist_row (c # a) [] t)"
    using next_row_correct [of c t a "[]"] by (simp add: row_step_def hd_dist_row Let_def)
  also have "\<dots> = dist_row (c # a) [] t"
    by (subst (2) dist_row_def, subst prefixes_split) (simp add: dist_row_def map_tl)
  finally show ?thesis .
qed

lemma fold_row_step: "fold (row_step t) s (dist_row a [] t) = dist_row (rev s @ a) [] t"
  by (induction s arbitrary: a) (simp_all add: row_step_correct)

lemma map_length_prefixes: "map length (prefixes t) = [0 ..< Suc (length t)]"
proof (induction t)
  case Nil
  then show ?case by simp
next
  case (Cons x t)
  have "map length (prefixes (x # t)) = 0 # map Suc (map length (prefixes t))"
    by (simp add: comp_def)
  also have "\<dots> = 0 # map Suc [0 ..< Suc (length t)]" by (simp only: Cons.IH)
  also have "\<dots> = [0 ..< Suc (length (x # t))]"
    by (simp add: map_Suc_upt upt_conv_Cons del: upt_Suc)
  finally show ?case .
qed

lemma levenshteinDistance_edit_distance:
  "levenshteinDistance s1 s2 = edit_distance (rev s1) (rev s2)"
proof -
  have "[0 ..< Suc (length s2)] = dist_row [] [] s2"
    by (simp add: dist_row_def map_length_prefixes [symmetric] del: upt_Suc)
  then have "levenshteinDistance s1 s2 = last (dist_row (rev s1) [] s2)"
    using fold_row_step [of s2 s1 "[]"] by (simp add: levenshteinDistance_def del: upt_Suc)
  also have "\<dots> = edit_distance (rev s1) (rev s2)"
    by (simp add: dist_row_def last_map)
  finally show ?thesis .
qed


lemma edits_insert_all: "edits [] ys (length ys)"
  by (induction ys) (auto intro: edits.intros)

lemma edits_delete_all: "edits xs [] (length xs)"
  by (induction xs) (auto intro: edits.intros)

lemma edits_edit_distance: "edits a b (edit_distance a b)"
proof (induction a b rule: edit_distance.induct)
  case (1 ys)
  then show ?case by (simp add: edits_insert_all)
next
  case (2 x xs)
  then show ?case using edits_delete_all [of "x # xs"] by simp
next
  case (3 x xs y ys)
  show ?case
  proof (cases "x = y")
    case True
    with 3 show ?thesis by (auto intro: edits.keep)
  next
    case False
    with 3 have a: "edits (x # xs) (y # ys) (Suc (edit_distance xs (y # ys)))"
      and b: "edits (x # xs) (y # ys) (Suc (edit_distance (x # xs) ys))"
      and c: "edits (x # xs) (y # ys) (Suc (edit_distance xs ys))"
      by (auto intro: edits.intros)
    with False show ?thesis by (simp add: min_def)
  qed
qed

lemma edit_distance_step:
  fixes a b :: "'a list"
  shows "edit_distance (x # a) b \<le> Suc (edit_distance a b) \<and>
   edit_distance a b \<le> Suc (edit_distance a (y # b))"
proof (induction "length a + length b" arbitrary: a b x y rule: less_induct)
  case less
  have A: "edit_distance (x' # a') b' \<le> Suc (edit_distance a' b')"
    if "length a' + length b' < length a + length b" for a' b' :: "'a list" and x' :: 'a
    using less [OF that] by blast
  have D: "edit_distance a' b' \<le> Suc (edit_distance a' (y' # b'))"
    if "length a' + length b' < length a + length b" for a' b' :: "'a list" and y' :: 'a
    using less [OF that] by blast
  have first: "edit_distance (x # a) b \<le> Suc (edit_distance a b)"
  proof (cases b)
    case Nil
    then show ?thesis by simp
  next
    case (Cons z b')
    show ?thesis
    proof (cases "x = z")
      case True
      have "edit_distance a b' \<le> Suc (edit_distance a (z # b'))"
        by (rule D) (simp add: Cons)
      with True Cons show ?thesis by simp
    next
      case False
      with Cons show ?thesis by simp
    qed
  qed
  have second: "edit_distance a b \<le> Suc (edit_distance a (y # b))"
  proof (cases a)
    case Nil
    then show ?thesis by simp
  next
    case (Cons z a')
    have s1: "edit_distance (z # a') b \<le> Suc (edit_distance a' b)"
      by (rule A) (simp add: Cons)
    have s2: "edit_distance a' b \<le> Suc (edit_distance a' (y # b))"
      by (rule D) (simp add: Cons)
    show ?thesis
    proof (cases "z = y")
      case True
      with Cons s1 show ?thesis by simp
    next
      case False
      with Cons s1 s2 show ?thesis by (simp add: min_def)
    qed
  qed
  from first second show ?case by blast
qed

lemma edit_distance_commute: "edit_distance a b = edit_distance b a"
  by (induction a b rule: edit_distance.induct) (auto simp: min.commute min.left_commute)

lemma edit_distance_le_edits: "edits a b n \<Longrightarrow> edit_distance a b \<le> n"
proof (induction rule: edits.induct)
  case stop
  then show ?case by simp
next
  case (keep a b n x)
  then show ?case by simp
next
  case (sub a b n x y)
  then show ?case by (auto simp: min_def)
next
  case (del a b n x)
  then show ?case using edit_distance_step [of x a b] by (meson Suc_le_mono le_trans)
next
  case (ins a b n y)
  have "edit_distance a (y # b) = edit_distance (y # b) a" by (rule edit_distance_commute)
  also have "\<dots> \<le> Suc (edit_distance b a)" using edit_distance_step [of y b a] by blast
  also have "\<dots> = Suc (edit_distance a b)" by (simp add: edit_distance_commute)
  finally show ?case using ins.IH by simp
qed

lemma edits_snoc:
  assumes "edits a b n"
  shows "edits (a @ [x]) (b @ [x]) n" "edits (a @ [x]) (b @ [y]) (Suc n)"
    "edits (a @ [x]) b (Suc n)" "edits a (b @ [y]) (Suc n)"
  using assms
proof (induction rule: edits.induct)
  case stop
  {
    case 1 show ?case by (auto intro: edits.intros)
  next
    case 2 show ?case by (auto intro: edits.intros)
  next
    case 3 show ?case by (auto intro: edits.intros)
  next
    case 4 show ?case by (auto intro: edits.intros)
  }
next
  case (keep a b n z)
  {
    case 1 show ?case using keep.IH(1) by (auto intro: edits.intros)
  next
    case 2 show ?case using keep.IH(2) by (auto intro: edits.intros)
  next
    case 3 show ?case using keep.IH(3) by (auto intro: edits.intros)
  next
    case 4 show ?case using keep.IH(4) by (auto intro: edits.intros)
  }
next
  case (sub a b n z w)
  {
    case 1 show ?case using sub.IH(1) by (auto intro: edits.intros)
  next
    case 2 show ?case using sub.IH(2) by (auto intro: edits.intros)
  next
    case 3 show ?case using sub.IH(3) by (auto intro: edits.intros)
  next
    case 4 show ?case using sub.IH(4) by (auto intro: edits.intros)
  }
next
  case (del a b n z)
  {
    case 1 show ?case using del.IH(1) by (auto intro: edits.intros)
  next
    case 2 show ?case using del.IH(2) by (auto intro: edits.intros)
  next
    case 3 show ?case using del.IH(3) by (auto intro: edits.intros)
  next
    case 4 show ?case using del.IH(4) by (auto intro: edits.intros)
  }
next
  case (ins a b n z)
  {
    case 1 show ?case using ins.IH(1) by (auto intro: edits.intros)
  next
    case 2 show ?case using ins.IH(2) by (auto intro: edits.intros)
  next
    case 3 show ?case using ins.IH(3) by (auto intro: edits.intros)
  next
    case 4 show ?case using ins.IH(4) by (auto intro: edits.intros)
  }
qed

lemma edits_rev: "edits a b n \<Longrightarrow> edits (rev a) (rev b) n"
  by (induction rule: edits.induct) (auto intro: edits.stop edits_snoc)

lemma edit_distance_rev: "edit_distance (rev a) (rev b) = edit_distance a b"
proof (rule antisym)
  show "edit_distance (rev a) (rev b) \<le> edit_distance a b"
    by (intro edit_distance_le_edits edits_rev edits_edit_distance)
  have "edits (rev (rev a)) (rev (rev b)) (edit_distance (rev a) (rev b))"
    by (intro edits_rev edits_edit_distance)
  then show "edit_distance a b \<le> edit_distance (rev a) (rev b)"
    by (auto dest: edit_distance_le_edits)
qed

lemma levenshteinDistance_least:
  "levenshteinDistance s1 s2 = (LEAST n. edits s1 s2 n)"
proof -
  have "(LEAST n. edits s1 s2 n) = edit_distance s1 s2"
    by (intro Least_equality edits_edit_distance edit_distance_le_edits)
  then show ?thesis
    by (simp add: levenshteinDistance_edit_distance edit_distance_rev)
qed

lemma edit_distance_le_max: "edit_distance a b \<le> max (length a) (length b)"
  by (induction a b rule: edit_distance.induct) (auto simp: min_def max_def)

lemma length_flush_word: "length (flush_word w) \<le> length w"
  by (simp add: flush_word_def)

lemma length_strip_suffix_words: "length (strip_suffix_words w s) \<le> length w + length s"
proof (induction s arbitrary: w)
  case Nil
  then show ?case by (simp add: length_flush_word)
next
  case (Cons c s)
  show ?case
  proof (cases "is_word_char c")
    case True
    then show ?thesis using Cons.IH [of "w @ [c]"] by simp
  next
    case False
    then show ?thesis
      using Cons.IH [of "[]"] length_flush_word [of w] by simp
  qed
qed

lemma length_collapse_spaces: "length (collapse_spaces f s) \<le> length s"
  by (induction s arbitrary: f) (auto simp: le_SucI)

lemma length_trim: "length (trim s) \<le> length s"
  unfolding trim_def
  by (metis length_dropWhile_le length_rev le_trans)

lemma length_cleanCompanyName: "length (cleanCompanyName s) \<le> length s"
proof -
  have "length (cleanCompanyName s) \<le> length (strip_punctuation (strip_suffix_words [] s))"
    unfolding cleanCompanyName_def
    by (meson length_trim length_collapse_spaces le_trans)
  also have "\<dots> \<le> length (strip_suffix_words [] s)"
    by (simp add: strip_punctuation_def)
  also have "\<dots> \<le> length s"
    using length_strip_suffix_words [of "[]" s] by simp
  finally show ?thesis .
qed


subsection \<open>The score\<close>

lemma cleanCompanyName_Nil: "cleanCompanyName [] = []"
  by (simp add: cleanCompanyName_def strip_punctuation_def trim_def flush_word_def
      toLowerCase_def suffix_words_def)

lemma maxLen_pos:
  assumes "cleanCompanyName s1 \<noteq> cleanCompanyName s2"
  shows "0 < max (length s1) (length s2)"
proof (rule ccontr)
  assume "\<not> 0 < max (length s1) (length s2)"
  then have "s1 = []" "s2 = []" by auto
  with assms show False by simp
qed

subsection \<open>Rounding to a double\<close>

lemma pow2_pos: "0 < pow2 k"
  by (simp add: pow2_def)

lemma round_half_even_le: "x \<le> of_int K \<Longrightarrow> round_half_even x \<le> K"
proof -
  assume a: "x \<le> of_int K"
  then have f: "\<lfloor>x\<rfloor> \<le> K" using floor_mono by fastforce
  show ?thesis
  proof (cases "\<lfloor>x\<rfloor> = K")
    case True
    then have "of_int K \<le> x" by (metis of_int_floor_le)
    with a have "x = of_int K" by simp
    then show ?thesis by (simp add: round_half_even_def)
  next
    case False
    with f have "\<lfloor>x\<rfloor> + 1 \<le> K" by simp
    then show ?thesis by (auto simp: round_half_even_def Let_def)
  qed
qed

lemma round_half_even_ge: "of_int K \<le> x \<Longrightarrow> K \<le> round_half_even x"
proof -
  assume "of_int K \<le> x"
  then have "K \<le> \<lfloor>x\<rfloor>" by (simp add: le_floor_iff)
  then show ?thesis by (auto simp: round_half_even_def Let_def)
qed

lemma bit_length_le: "n < 2 ^ k \<Longrightarrow> bit_length n \<le> k"
proof (induction k arbitrary: n)
  case 0
  then show ?case by (simp add: bit_length.simps [of n])
next
  case (Suc k)
  show ?case
  proof (cases "n \<le> 0")
    case True
    then show ?thesis by (simp add: bit_length.simps [of n])
  next
    case False
    from Suc.prems have "n div 2 < 2 ^ k" by simp
    from Suc.IH [OF this] False show ?thesis by (subst bit_length.simps) simp
  qed
qed

lemma binary_exponent_le:
  assumes "0 < x" "x < 2 ^ 53"
  shows "binary_exponent x \<le> 52"
proof (cases "1 \<le> x")
  case True
  have "\<lfloor>x\<rfloor> < 2 ^ 53" using assms(2) by (simp add: floor_less_iff)
  then have "bit_length \<lfloor>x\<rfloor> \<le> 53" by (rule bit_length_le)
  with True show ?thesis by (simp add: binary_exponent_def)
next
  case False
  then show ?thesis by (simp add: binary_exponent_def)
qed

lemma round_double_nonneg: "0 \<le> x \<Longrightarrow> 0 \<le> round_double x"
proof -
  assume x: "0 \<le> x"
  have "0 \<le> round_half_even (x / pow2 k)" for k
    using x pow2_pos [of k] by (intro round_half_even_ge) simp
  then show ?thesis
    using pow2_pos by (simp add: round_double_def Let_def less_imp_le)
qed

lemma round_double_le_int:
  assumes "0 < x" "x \<le> of_int c" "x < 2 ^ 53"
  shows "round_double x \<le> of_int c"
proof -
  define e where "e = max (binary_exponent \<bar>x\<bar>) (- 1022)"
  define k where "k = nat (52 - e)"
  have "e \<le> 52" using binary_exponent_le [of x] assms by (simp add: e_def)
  then have ulp: "pow2 (e - 52) = 1 / 2 ^ k"
    by (auto simp: pow2_def k_def)
  have "x / pow2 (e - 52) = x * 2 ^ k" by (simp add: ulp)
  also have "\<dots> \<le> of_int c * 2 ^ k" using assms(2) by simp
  also have "\<dots> = of_int (c * 2 ^ k)" by simp
  finally have "round_half_even (x / pow2 (e - 52)) \<le> c * 2 ^ k"
    by (rule round_half_even_le)
  then have "(of_int (round_half_even (x / pow2 (e - 52))) :: rat) \<le> of_int (c * 2 ^ k)"
    by (simp only: of_int_le_iff)
  then have "of_int (round_half_even (x / pow2 (e - 52))) * pow2 (e - 52) \<le> of_int c"
    by (simp add: ulp field_simps)
  then show ?thesis
    using assms(1) by (simp add: round_double_def Let_def e_def)
qed

lemma round_half_even_of_int: "round_half_even (of_int j) = j"
  by (simp add: round_half_even_def)

text \<open>Integers below \<open>2^53\<close> are doubles: they are not changed by rounding.\<close>

lemma round_double_of_int:
  assumes "0 < n" "n < 2 ^ 53"
  shows "round_double (of_int n) = of_int n"
proof -
  define e where "e = max (binary_exponent \<bar>of_int n\<bar>) (- 1022)"
  define k where "k = nat (52 - e)"
  have "e \<le> 52" using binary_exponent_le [of "of_int n"] assms by (simp add: e_def)
  then have ulp: "pow2 (e - 52) = 1 / 2 ^ k"
    by (auto simp: pow2_def k_def)
  have "(of_int n :: rat) / pow2 (e - 52) = of_int (n * 2 ^ k)" by (simp add: ulp)
  then have "round_half_even (of_int n / pow2 (e - 52)) = n * 2 ^ k"
    by (simp only: round_half_even_of_int)
  then have "of_int (round_half_even (of_int n / pow2 (e - 52))) * pow2 (e - 52) = (of_int n :: rat)"
    by (simp add: ulp)
  then show ?thesis
    using assms(1) by (simp add: round_double_def Let_def e_def)
qed

lemma bit_length_bounds:
  "0 < n \<Longrightarrow> 2 ^ (bit_length n - 1) \<le> n \<and> n < 2 ^ bit_length n"
proof (induction n rule: bit_length.induct)
  case (1 n)
  show ?case
  proof (cases "n div 2 = 0")
    case True
    with 1(2) have "n = 1" by linarith
    then show ?thesis by (simp add: bit_length.simps [of 1] bit_length.simps [of 0])
  next
    case False
    with 1(2) have pos: "0 < n div 2" by linarith
    define b where "b = bit_length (n div 2)"
    from 1(1) 1(2) pos have ih: "2 ^ (b - 1) \<le> n div 2" "n div 2 < 2 ^ b"
      by (simp_all add: b_def)
    have b1: "1 \<le> b" using pos by (simp add: b_def bit_length.simps [of "n div 2"])
    then obtain c where c: "b = Suc c" by (cases b) auto
    have bl: "bit_length n = Suc b" using 1(2) by (simp add: b_def bit_length.simps [of n])
    have "(2::int) ^ b \<le> 2 * (n div 2)" using ih(1) by (simp add: c)
    also have "\<dots> \<le> n" by linarith
    finally have lo: "(2::int) ^ b \<le> n" .
    have "n \<le> 2 * (n div 2) + 1" by linarith
    also have "\<dots> < 2 * 2 ^ b" using ih(2) by linarith
    finally have hi: "n < 2 ^ Suc b" by simp
    show ?thesis using lo hi by (simp add: bl)
  qed
qed

lemma bit_length_pos: "0 < n \<Longrightarrow> 0 < bit_length n"
  by (simp add: bit_length.simps [of n])

lemma binary_exponent_bounds:
  assumes "0 < x"
  shows "pow2 (binary_exponent x) \<le> x \<and> x < pow2 (binary_exponent x + 1)"
proof (cases "1 \<le> x")
  case True
  define n where "n = \<lfloor>x\<rfloor>"
  have n: "0 < n" using True by (simp add: n_def)
  define b where "b = bit_length n"
  from bit_length_pos [OF n] obtain c where c: "b = Suc c" by (cases b) (auto simp: b_def)
  from bit_length_bounds [OF n] have bd: "2 ^ c \<le> n" "n < 2 ^ Suc c"
    by (simp_all add: b_def [symmetric] c)
  have e: "binary_exponent x = int c"
    using True by (simp add: binary_exponent_def n_def [symmetric] b_def [symmetric] c)
  have "(2::rat) ^ c = of_int (2 ^ c)" by simp
  also have "\<dots> \<le> of_int n" using bd(1) by (simp only: of_int_le_iff)
  also have "\<dots> \<le> x" by (simp add: n_def)
  finally have lo: "2 ^ c \<le> x" .
  have "n + 1 \<le> 2 ^ Suc c" using bd(2) by linarith
  then have "(of_int (n + 1) :: rat) \<le> of_int (2 ^ Suc c)" by (simp only: of_int_le_iff)
  moreover have "x < of_int (n + 1)" unfolding n_def by linarith
  ultimately have hi: "x < 2 ^ Suc c" by simp
  have "int c + 1 = int (Suc c)" by simp
  then show ?thesis using lo hi unfolding e pow2_def by (simp del: power_Suc of_nat_Suc add: nat_add_distrib)
next
  case False
  define y where "y = 1 / x"
  have y1: "1 < y" using False assms by (simp add: y_def)
  define n where "n = \<lceil>y\<rceil> - 1"
  have "2 \<le> \<lceil>y\<rceil>" using y1 by (simp add: le_ceiling_iff)
  then have n: "0 < n" by (simp add: n_def)
  define b where "b = bit_length n"
  from bit_length_pos [OF n] obtain c where c: "b = Suc c" by (cases b) (auto simp: b_def)
  from bit_length_bounds [OF n] have bd: "2 ^ c \<le> n" "n < 2 ^ Suc c"
    by (simp_all add: b_def [symmetric] c)
  have e: "binary_exponent x = - int (Suc c)"
    using False by (simp add: binary_exponent_def y_def [symmetric] n_def [symmetric] b_def [symmetric] c)
  have ny: "of_int n < y" unfolding n_def by simp linarith
  have yn: "y \<le> of_int (n + 1)" unfolding n_def by simp
  have "(2::rat) ^ c = of_int (2 ^ c)" by simp
  also have "\<dots> \<le> of_int n" using bd(1) by (simp only: of_int_le_iff)
  also have "\<dots> < y" by (rule ny)
  finally have lo: "2 ^ c < 1 / x" by (simp add: y_def)
  have "n + 1 \<le> 2 ^ Suc c" using bd(2) by linarith
  then have "(of_int (n + 1) :: rat) \<le> of_int (2 ^ Suc c)" by (simp only: of_int_le_iff)
  with yn have hi: "1 / x \<le> 2 ^ Suc c" by (simp add: y_def)
  have x_hi: "x < 1 / 2 ^ c"
    using lo assms by (simp add: field_simps)
  have x_lo: "1 / 2 ^ Suc c \<le> x"
    using hi assms by (simp add: field_simps)
  have p1: "pow2 (- int (Suc c)) = 1 / 2 ^ Suc c" by (simp add: pow2_def nat_add_distrib)
  have p2: "pow2 (- int (Suc c) + 1) = 1 / 2 ^ c" by (cases c) (simp_all add: pow2_def nat_add_distrib)
  show ?thesis unfolding e p1 p2 using x_lo x_hi by simp
qed

lemma round_half_even_nearest: "\<bar>of_int (round_half_even x) - x\<bar> \<le> 1 / 2"
proof -
  define f where "f = \<lfloor>x\<rfloor>"
  have "of_int f \<le> x" "x < of_int f + 1" unfolding f_def by linarith+
  then show ?thesis
    unfolding round_half_even_def Let_def f_def [symmetric]
    by (simp add: abs_if)
qed

text \<open>The rounded value is a multiple of the spacing at \<open>x\<close> and is at most half a spacing
  away from \<open>x\<close>.\<close>

lemma round_double_nearest:
  assumes "x \<noteq> 0"
  shows "\<bar>round_double x - x\<bar> \<le> pow2 (max (binary_exponent \<bar>x\<bar>) (- 1022) - 52) / 2"
proof -
  define u where "u = pow2 (max (binary_exponent \<bar>x\<bar>) (- 1022) - 52)"
  have u: "0 < u" by (simp add: u_def pow2_pos)
  have "round_double x - x = (of_int (round_half_even (x / u)) - x / u) * u"
    using assms u by (simp add: round_double_def Let_def u_def [symmetric] field_simps)
  then have "\<bar>round_double x - x\<bar> = \<bar>of_int (round_half_even (x / u)) - x / u\<bar> * u"
    using u by (simp add: abs_mult)
  also have "\<dots> \<le> (1 / 2) * u"
    using round_half_even_nearest [of "x / u"] u by (intro mult_right_mono) simp_all
  finally show ?thesis by (simp add: u_def)
qed

text \<open>The ratio in doubles stays between 0 and 100.\<close>

lemma ratio_bounds:
  assumes "0 \<le> a" "a \<le> m" "(0::rat) < m"
  shows "0 \<le> double_mul (double_div a m) 100" "double_mul (double_div a m) 100 \<le> 100"
proof -
  have q0: "0 \<le> a / m" using assms by simp
  have q1: "a / m \<le> 1" using assms by simp
  have d0: "0 \<le> double_div a m" unfolding double_div_def using q0 by (rule round_double_nonneg)
  have d1: "double_div a m \<le> 1"
  proof (cases "a / m = 0")
    case True
    then show ?thesis by (simp add: double_div_def round_double_def)
  next
    case False
    with q0 have "0 < a / m" by (simp add: less_le)
    moreover have "a / m \<le> of_int 1" using q1 by simp
    moreover have "a / m < 2 ^ 53" using q1 by (rule le_less_trans) simp
    ultimately have "round_double (a / m) \<le> of_int 1" by (rule round_double_le_int)
    then show ?thesis by (simp add: double_div_def)
  qed
  have p0: "0 \<le> double_div a m * 100" using d0 by simp
  have p1: "double_div a m * 100 \<le> 100" using d1 by simp
  show "0 \<le> double_mul (double_div a m) 100"
    unfolding double_mul_def using p0 by (rule round_double_nonneg)
  show "double_mul (double_div a m) 100 \<le> 100"
  proof (cases "double_div a m * 100 = 0")
    case True
    then show ?thesis by (simp add: double_mul_def round_double_def)
  next
    case False
    with p0 have "0 < double_div a m * 100" by (simp add: less_le)
    moreover have "double_div a m * 100 \<le> of_int 100" using p1 by simp
    moreover have "double_div a m * 100 < 2 ^ 53" using p1 by (rule le_less_trans) simp
    ultimately have "round_double (double_div a m * 100) \<le> of_int 100"
      by (rule round_double_le_int)
    then show ?thesis by (simp add: double_mul_def)
  qed
qed

lemma boosted_bounds:
  assumes "(0::rat) \<le> r" "r \<le> 100"
  shows "0 \<le> (if c then min (double_add r 15) 95 else r)"
    "(if c then min (double_add r 15) 95 else r) \<le> 100"
proof -
  have "0 \<le> double_add r 15"
    unfolding double_add_def using assms(1) by (intro round_double_nonneg) simp
  then show "0 \<le> (if c then min (double_add r 15) 95 else r)"
    using assms(1) by (simp add: min_def)
  show "(if c then min (double_add r 15) 95 else r) \<le> 100"
    using assms(2) by (simp add: min_def)
qed

lemma distance_le_maxLen:
  "levenshteinDistance (cleanCompanyName s1) (cleanCompanyName s2) \<le> max (length s1) (length s2)"
proof -
  have "levenshteinDistance (cleanCompanyName s1) (cleanCompanyName s2)
          \<le> max (length (cleanCompanyName s1)) (length (cleanCompanyName s2))"
    by (simp add: levenshteinDistance_edit_distance edit_distance_rev edit_distance_le_max)
  also have "\<dots> \<le> max (length s1) (length s2)"
    using length_cleanCompanyName [of s1] length_cleanCompanyName [of s2] by (simp add: max_def)
  finally show ?thesis .
qed

text \<open>
  Claim C3, as the code has it. For input strings whose normalised forms differ,
  \<open>calculateSimilarity\<close> returns \<open>((maxLen - distance) / maxLen) * 100\<close> as computed in
  double precision (the quotient rounded to a double, the product rounded again), not
  rounded to an integer (the caller does that), with 15 added and a cap of 95 when one input
  string contains the other. Here \<open>distance\<close> is the unit-cost edit distance between the two
  normalised strings, but \<open>maxLen\<close> is the greater length of the two strings as passed in,
  before normalisation. \<open>maxLen\<close> is never 0 in this case, so the short cut to 100 is not
  taken. The value lies between 0 and 100, and so does the integer it is rounded to.
\<close>

theorem calculateSimilarity_ratio:
  assumes "cleanCompanyName s1 \<noteq> cleanCompanyName s2"
  shows "0 < max (length s1) (length s2) \<and>
         calculateSimilarity s1 s2 =
           (let maxLen = max (length s1) (length s2);
                distance = (LEAST n. edits (cleanCompanyName s1) (cleanCompanyName s2) n);
                ratio = double_mul
                          (double_div (of_nat maxLen - of_nat distance) (of_nat maxLen)) 100
            in if includes' s1 s2 \<or> includes' s2 s1 then min (double_add ratio 15) 95
               else ratio) \<and>
         0 \<le> calculateSimilarity s1 s2 \<and> calculateSimilarity s1 s2 \<le> 100 \<and>
         0 \<le> js_round (calculateSimilarity s1 s2) \<and> js_round (calculateSimilarity s1 s2) \<le> 100"
proof -
  let ?m = "max (length s1) (length s2)"
  let ?d = "levenshteinDistance (cleanCompanyName s1) (cleanCompanyName s2)"
  let ?ratio = "double_mul (double_div (of_nat ?m - of_nat ?d) (of_nat ?m)) 100"
  have m: "0 < ?m" using assms by (rule maxLen_pos)
  have val: "calculateSimilarity s1 s2 =
      (if includes' s1 s2 \<or> includes' s2 s1 then min (double_add ?ratio 15) 95 else ?ratio)"
    using assms m by (auto simp: calculateSimilarity_def Let_def)
  have d: "?d \<le> ?m" by (rule distance_le_maxLen)
  have a0: "(0::rat) \<le> of_nat ?m - of_nat ?d" using d by simp
  have a1: "(of_nat ?m - of_nat ?d :: rat) \<le> of_nat ?m" by simp
  have m': "(0::rat) < of_nat ?m" using m by simp
  have lo: "0 \<le> ?ratio" and hi: "?ratio \<le> 100"
    using ratio_bounds [OF a0 a1 m'] by blast+
  have b0: "0 \<le> calculateSimilarity s1 s2" and b1: "calculateSimilarity s1 s2 \<le> 100"
    unfolding val using boosted_bounds [OF lo hi] by blast+
  have r0: "0 \<le> js_round (calculateSimilarity s1 s2)"
    using b0 by (simp add: js_round_def)
  have r1: "js_round (calculateSimilarity s1 s2) \<le> 100"
    using b1 by (simp add: js_round_def floor_le_iff)
  show ?thesis
    using m val b0 b1 r0 r1 by (simp add: Let_def levenshteinDistance_least)
qed

theorem calculateSimilarity_ratio_witness:
  "cleanCompanyName ''acme inc'' \<noteq> cleanCompanyName ''acmy'' \<and>
   0 < max (length ''acme inc'') (length ''acmy'') \<and>
   calculateSimilarity ''acme inc'' ''acmy'' =
     (let maxLen = max (length ''acme inc'') (length ''acmy'');
          distance = (LEAST n. edits (cleanCompanyName ''acme inc'') (cleanCompanyName ''acmy'') n);
          ratio = double_mul
                    (double_div (of_nat maxLen - of_nat distance) (of_nat maxLen)) 100
      in if includes' ''acme inc'' ''acmy'' \<or> includes' ''acmy'' ''acme inc''
         then min (double_add ratio 15) 95 else ratio) \<and>
   0 \<le> calculateSimilarity ''acme inc'' ''acmy'' \<and>
   calculateSimilarity ''acme inc'' ''acmy'' \<le> 100 \<and>
   0 \<le> js_round (calculateSimilarity ''acme inc'' ''acmy'') \<and>
   js_round (calculateSimilarity ''acme inc'' ''acmy'') \<le> 100"
proof -
  have h: "cleanCompanyName ''acme inc'' \<noteq> cleanCompanyName ''acmy''" by code_simp
  from calculateSimilarity_ratio [OF h] h show ?thesis by blast
qed

text \<open>The claim as written fails: the normal forms are \<open>acme\<close> and \<open>acmy\<close>, at distance 1,
  so the formula over the normalised strings gives \<open>round(3 / 4 * 100) = 75\<close>; the code
  divides by the length 8 of \<open>acme inc\<close> and returns 87.5 (the doubles \<open>7 / 8\<close> and
  \<open>0.875 * 100\<close> are exact), which is not an integer and is rounded to 88 by the caller.\<close>

theorem calculateSimilarity_ratio_counterexample:
  "cleanCompanyName (toLowerCase ''Acme Inc'') = ''acme'' \<and>
   cleanCompanyName (toLowerCase ''Acmy'') = ''acmy'' \<and>
   spec_similarity ''Acme Inc'' ''Acmy'' = 75 \<and>
   calculateSimilarity (toLowerCase ''Acme Inc'') (toLowerCase ''Acmy'') = 175 / 2 \<and>
   fuzzyAlternatives (one_vendor ''Acmy'') ''Acme Inc'' =
     Some [\<lparr>code = ''V1'', name = ''Acmy'', score = 88\<rparr>]"
  by code_simp

text \<open>The double arithmetic shows in the score: for 23 letters \<open>a\<close> followed by 17 letters
  \<open>b\<close> against 40 letters \<open>a\<close> the distance is 17 and the exact ratio 57.5, but the double
  nearest to \<open>23 / 40\<close> times 100 rounds to 57.49999999999999, which the caller rounds to
  57, where the exact value would give 58.\<close>

lemma calculateSimilarity_double_example:
  "levenshteinDistance ''aaaaaaaaaaaaaaaaaaaaaaabbbbbbbbbbbbbbbbb''
     ''aaaaaaaaaaaaaaaaaaaaaaaaaaaaaaaaaaaaaaaa'' = 17 \<and>
   calculateSimilarity ''aaaaaaaaaaaaaaaaaaaaaaabbbbbbbbbbbbbbbbb''
     ''aaaaaaaaaaaaaaaaaaaaaaaaaaaaaaaaaaaaaaaa'' = 8092405580431359 / 140737488355328 \<and>
   js_round (calculateSimilarity ''aaaaaaaaaaaaaaaaaaaaaaabbbbbbbbbbbbbbbbb''
     ''aaaaaaaaaaaaaaaaaaaaaaaaaaaaaaaaaaaaaaaa'') = 57 \<and>
   js_round (((40 - 17) / 40) * 100) = 58"
  by code_simp

lemma double_examples:
  "double_div 1 10 = 3602879701896397 / 36028797018963968 \<and>
   double_mul (double_div 1 3) 100 = 2345624805922133 / 70368744177664 \<and>
   double_mul (double_div 11 13) 100 = 2977139176747323 / 35184372088832 \<and>
   double_add (double_mul (double_div 4 10) 100) 15 = 55"
  by code_simp

text \<open>
  Claim C4, as the code has it. When one of the two input strings, as passed in and before
  normalisation, contains the other (and the normal forms differ), \<open>calculateSimilarity\<close>
  adds 15 to the ratio and caps the result at 95, so that the boosted score never exceeds
  the 95 of identical normal forms. The ratio and the sum are the code's doubles.
\<close>

theorem calculateSimilarity_containment_boost:
  assumes "includes' s1 s2 \<or> includes' s2 s1"
    and "cleanCompanyName s1 \<noteq> cleanCompanyName s2"
  shows "calculateSimilarity s1 s2 =
           min (double_add
                  (double_mul
                     (double_div
                        (of_nat (max (length s1) (length s2)) -
                         of_nat (levenshteinDistance (cleanCompanyName s1) (cleanCompanyName s2)))
                        (of_nat (max (length s1) (length s2)))) 100) 15) 95 \<and>
         calculateSimilarity s1 s2 \<le> 95"
  using assms maxLen_pos [OF assms(2)]
  by (auto simp: calculateSimilarity_def Let_def)


theorem calculateSimilarity_containment_boost_witness:
  "includes' ''acme tools'' ''acme'' \<and>
   cleanCompanyName ''acme tools'' \<noteq> cleanCompanyName ''acme'' \<and>
   calculateSimilarity ''acme tools'' ''acme'' = 55 \<and>
   calculateSimilarity ''acme tools'' ''acme'' \<le> 95"
proof -
  have i: "includes' ''acme tools'' ''acme'' \<or> includes' ''acme'' ''acme tools''" by code_simp
  have h: "cleanCompanyName ''acme tools'' \<noteq> cleanCompanyName ''acme''" by code_simp
  have i': "includes' ''acme tools'' ''acme''" by code_simp
  have v: "min (double_add
                  (double_mul
                     (double_div
                        (of_nat (max (length ''acme tools'') (length ''acme'')) -
                         of_nat (levenshteinDistance (cleanCompanyName ''acme tools'')
                                   (cleanCompanyName ''acme'')))
                        (of_nat (max (length ''acme tools'') (length ''acme'')))) 100) 15) 95
            = (55 :: rat)"
    by code_simp
  from calculateSimilarity_containment_boost [OF i h] i' h v show ?thesis by simp
qed

text \<open>The claim as written fails: the normal form \<open>abc\<close> of \<open>a.b.c\<close> contains \<open>ab\<close>, but the
  input \<open>a.b.c\<close> does not, and the code returns the plain ratio \<open>(5 - 1) / 5 * 100 = 80\<close>
  with nothing added.\<close>

theorem calculateSimilarity_containment_counterexample:
  "includes' (cleanCompanyName ''a.b.c'') (cleanCompanyName ''ab'') \<and>
   cleanCompanyName ''a.b.c'' \<noteq> cleanCompanyName ''ab'' \<and>
   levenshteinDistance (cleanCompanyName ''a.b.c'') (cleanCompanyName ''ab'') = 1 \<and>
   calculateSimilarity ''a.b.c'' ''ab'' = 80 \<and>
   spec_similarity ''a.b.c'' ''ab'' = 82"
  by code_simp


section \<open>Properties of the field validation engine\<close>

text \<open>
  Claim C9. For every non-empty (truthy) extracted value and every field name, when the
  master data provider returns an empty list for the resolved category, \<open>validateField\<close>
  returns at once: status \<open>no_match\<close>, confidence 0, no matched code, no matched name
  and no alternatives, whatever the extracted value is.
\<close>

theorem validateField_empty_master_data:
  assumes "truthy extractedValue"
    and "fetchMasterData svc clientId (dataType_of fieldName) = []"
  shows "validateField svc extractedValue fieldName clientId documentContext =
           Inr \<lparr>field = fieldName, extracted_value = extractedValue, matched_code = None,
                matched_name = None, confidence = 0, status = no_match, alternatives = []\<rparr>"
  using assms by (simp add: validateField_def)

theorem validateField_empty_master_data_witness:
  "truthy (JStr ''Jacks Foods'') \<and>
   fetchMasterData (example_services []) ''client'' (dataType_of ''invoicing_party'') = [] \<and>
   validateField (example_services []) (JStr ''Jacks Foods'') ''invoicing_party'' ''client'' None =
     Inr \<lparr>field = ''invoicing_party'', extracted_value = JStr ''Jacks Foods'',
          matched_code = None, matched_name = None, confidence = 0, status = no_match,
          alternatives = []\<rparr>"
proof -
  have t: "truthy (JStr ''Jacks Foods'')" by simp
  have e: "fetchMasterData (example_services []) ''client'' (dataType_of ''invoicing_party'') = []"
    by (simp add: fetchMasterData_def example_services_def fixed_store_def)
  show ?thesis
    using t e validateField_empty_master_data [OF t e, of None] by simp
qed


subsection \<open>The alternatives array is always built\<close>

lemma those_map_Some:
  "(\<And>x. x \<in> set xs \<Longrightarrow> f x \<noteq> None) \<Longrightarrow> those (map f xs) = Some (map (\<lambda>x. the (f x)) xs)"
  by (induction xs) (auto split: option.splits)

lemma simpleFuzzyMatch_choice:
  "r \<in> set (simpleFuzzyMatch q choices n) \<Longrightarrow> fst r \<in> set choices"
  unfolding simpleFuzzyMatch_def by (auto dest!: in_set_takeD)

lemma length_simpleFuzzyMatch:
  "length (simpleFuzzyMatch q choices n) = min n (length choices)"
  unfolding simpleFuzzyMatch_def by (simp add: min.commute)

lemma toAlternative_defined:
  "fst r \<in> name ` set md \<Longrightarrow> toAlternative md r \<noteq> None"
  unfolding toAlternative_def by (auto simp: find_None_iff split: option.splits)

lemma fuzzyAlternatives_defined:
  "\<exists>alts. fuzzyAlternatives md v = Some alts \<and> length alts = min 20 (length md)"
proof -
  have "\<And>r. r \<in> set (simpleFuzzyMatch v (map name md) 20) \<Longrightarrow> toAlternative md r \<noteq> None"
    using simpleFuzzyMatch_choice toAlternative_defined by fastforce
  then show ?thesis
    unfolding fuzzyAlternatives_def Let_def
    by (simp add: those_map_Some length_simpleFuzzyMatch)
qed

lemma fuzzyAlternatives_Nil: "fuzzyAlternatives [] v = Some []"
  by (simp add: fuzzyAlternatives_def simpleFuzzyMatch_def)

lemma validateField_string_total:
  "\<exists>r. validateField svc (JStr v) fieldName clientId ctx = Inr r"
proof -
  obtain alts where
    "fuzzyAlternatives (fetchMasterData svc clientId (dataType_of fieldName)) v = Some alts"
    using fuzzyAlternatives_defined by blast
  then show ?thesis
    unfolding validateField_def Let_def
    by (simp split: option.splits)
qed

subsection \<open>Tier boundaries\<close>

text \<open>
  Claim C1, as the code has it. When the value is a non-empty string, no item matches it
  exactly and the alternatives array is not empty, the rounded top score decides:
  a top score of exactly 85 is not accepted directly, the result is whatever the oracle
  path yields (the oracle's selection, or \<open>no_match\<close> when it selects nothing);
  top scores 86 to 90, so 89 and also 90, are accepted with status \<open>fuzzy_medium\<close>;
  only a top score above 90 is accepted with status \<open>fuzzy_high\<close>.
\<close>

theorem validateField_tier_boundaries:
  assumes "v \<noteq> []"
    and "findExactMatch (fetchMasterData svc clientId (dataType_of fieldName)) v = None"
    and "fuzzyAlternatives (fetchMasterData svc clientId (dataType_of fieldName)) v = Some alts"
    and "alts \<noteq> []"
  shows "(score (hd alts) = 85 \<longrightarrow>
            validateField svc (JStr v) fieldName clientId ctx =
              Inr (case selectBestMatchWithGPT svc v (take 10 alts) fieldName ctx of
                     Some gptSelection \<Rightarrow>
                       \<lparr>field = fieldName, extracted_value = JStr v,
                        matched_code = Some (code gptSelection),
                        matched_name = Some (name gptSelection),
                        confidence = confidence' gptSelection,
                        status = (if confidence' gptSelection > 75 then fuzzy_medium
                                  else fuzzy_low),
                        alternatives =
                          take 5 (filter (\<lambda>a. code a \<noteq> code gptSelection) alts)\<rparr>
                   | None \<Rightarrow>
                       \<lparr>field = fieldName, extracted_value = JStr v,
                        matched_code = or_null (code (hd alts)),
                        matched_name = or_null (name (hd alts)),
                        confidence = 85, status = no_match,
                        alternatives = take 5 alts\<rparr>)) \<and>
         (score (hd alts) \<in> {86, 87, 88, 89, 90} \<longrightarrow>
            validateField svc (JStr v) fieldName clientId ctx =
              Inr \<lparr>field = fieldName, extracted_value = JStr v,
                   matched_code = Some (code (hd alts)), matched_name = Some (name (hd alts)),
                   confidence = score (hd alts), status = fuzzy_medium,
                   alternatives = take 5 (drop 1 alts)\<rparr>) \<and>
         (score (hd alts) > 90 \<longrightarrow>
            validateField svc (JStr v) fieldName clientId ctx =
              Inr \<lparr>field = fieldName, extracted_value = JStr v,
                   matched_code = Some (code (hd alts)), matched_name = Some (name (hd alts)),
                   confidence = score (hd alts), status = fuzzy_high,
                   alternatives = take 5 (drop 1 alts)\<rparr>)"
proof -
  let ?md = "fetchMasterData svc clientId (dataType_of fieldName)"
  have md: "?md \<noteq> []"
    using assms(3,4) fuzzyAlternatives_Nil by fastforce
  obtain a rest where alts: "alts = a # rest"
    using assms(4) by (cases alts) auto
  show ?thesis
    using assms(1,2,3) md
    by (auto simp: validateField_def Let_def alts split: option.splits)
qed

text \<open>Runs with top scores 85 (the oracle selects with confidence 70), 89, 90 and 91.\<close>

theorem validateField_tier_boundaries_witness:
  "validateField (guided_services (one_vendor ''abcdefghijkxy'') 1 70) (JStr ''abcdefghijklm'')
     ''vendor_name'' ''client'' None =
     Inr \<lparr>field = ''vendor_name'', extracted_value = JStr ''abcdefghijklm'',
          matched_code = Some ''V1'', matched_name = Some ''abcdefghijkxy'',
          confidence = 70, status = fuzzy_low, alternatives = []\<rparr> \<and>
   validateField (example_services (one_vendor ''abcdefghx'')) (JStr ''abcdefghi'')
     ''vendor_name'' ''client'' None =
     Inr \<lparr>field = ''vendor_name'', extracted_value = JStr ''abcdefghi'',
          matched_code = Some ''V1'', matched_name = Some ''abcdefghx'',
          confidence = 89, status = fuzzy_medium, alternatives = []\<rparr> \<and>
   validateField (example_services (one_vendor ''vendor4001'')) (JStr ''vendor4000'')
     ''vendor_name'' ''client'' None =
     Inr \<lparr>field = ''vendor_name'', extracted_value = JStr ''vendor4000'',
          matched_code = Some ''V1'', matched_name = Some ''vendor4001'',
          confidence = 90, status = fuzzy_medium, alternatives = []\<rparr> \<and>
   validateField (example_services (one_vendor ''abcdefghijx'')) (JStr ''abcdefghijk'')
     ''vendor_name'' ''client'' None =
     Inr \<lparr>field = ''vendor_name'', extracted_value = JStr ''abcdefghijk'',
          matched_code = Some ''V1'', matched_name = Some ''abcdefghijx'',
          confidence = 91, status = fuzzy_high, alternatives = []\<rparr>"
proof -
  let ?g = "guided_services (one_vendor ''abcdefghijkxy'') 1 70"
  let ?a85 = "[\<lparr>code = ''V1'', name = ''abcdefghijkxy'', score = 85\<rparr>]"
  have a1: "''abcdefghijklm'' \<noteq> []" by simp
  have a2: "findExactMatch (fetchMasterData ?g ''client'' (dataType_of ''vendor_name''))
              ''abcdefghijklm'' = None"
    by code_simp
  have a3: "fuzzyAlternatives (fetchMasterData ?g ''client'' (dataType_of ''vendor_name''))
              ''abcdefghijklm'' = Some ?a85"
    by code_simp
  have a4: "?a85 \<noteq> []" by simp
  have a5: "selectBestMatchWithGPT ?g ''abcdefghijklm'' (take 10 ?a85) ''vendor_name'' None =
              Some \<lparr>code = ''V1'', name = ''abcdefghijkxy'', confidence' = 70\<rparr>"
    by (simp add: selectBestMatchWithGPT_def guided_services_def choosing_oracle_def)
  have r85: "validateField ?g (JStr ''abcdefghijklm'') ''vendor_name'' ''client'' None =
     Inr \<lparr>field = ''vendor_name'', extracted_value = JStr ''abcdefghijklm'',
          matched_code = Some ''V1'', matched_name = Some ''abcdefghijkxy'',
          confidence = 70, status = fuzzy_low, alternatives = []\<rparr>"
    using validateField_tier_boundaries [OF a1 a2 a3 a4, of None] a5 by simp
  let ?s89 = "example_services (one_vendor ''abcdefghx'')"
  let ?a89 = "[\<lparr>code = ''V1'', name = ''abcdefghx'', score = 89\<rparr>]"
  have b1: "''abcdefghi'' \<noteq> []" by simp
  have b2: "findExactMatch (fetchMasterData ?s89 ''client'' (dataType_of ''vendor_name''))
              ''abcdefghi'' = None"
    by code_simp
  have b3: "fuzzyAlternatives (fetchMasterData ?s89 ''client'' (dataType_of ''vendor_name''))
              ''abcdefghi'' = Some ?a89"
    by code_simp
  have b4: "?a89 \<noteq> []" by simp
  have r89: "validateField ?s89 (JStr ''abcdefghi'') ''vendor_name'' ''client'' None =
     Inr \<lparr>field = ''vendor_name'', extracted_value = JStr ''abcdefghi'',
          matched_code = Some ''V1'', matched_name = Some ''abcdefghx'',
          confidence = 89, status = fuzzy_medium, alternatives = []\<rparr>"
    using validateField_tier_boundaries [OF b1 b2 b3 b4, of None] by simp
  let ?s90 = "example_services (one_vendor ''vendor4001'')"
  let ?a90 = "[\<lparr>code = ''V1'', name = ''vendor4001'', score = 90\<rparr>]"
  have c1: "''vendor4000'' \<noteq> []" by simp
  have c2: "findExactMatch (fetchMasterData ?s90 ''client'' (dataType_of ''vendor_name''))
              ''vendor4000'' = None"
    by code_simp
  have c3: "fuzzyAlternatives (fetchMasterData ?s90 ''client'' (dataType_of ''vendor_name''))
              ''vendor4000'' = Some ?a90"
    by code_simp
  have c4: "?a90 \<noteq> []" by simp
  have r90: "validateField ?s90 (JStr ''vendor4000'') ''vendor_name'' ''client'' None =
     Inr \<lparr>field = ''vendor_name'', extracted_value = JStr ''vendor4000'',
          matched_code = Some ''V1'', matched_name = Some ''vendor4001'',
          confidence = 90, status = fuzzy_medium, alternatives = []\<rparr>"
    using validateField_tier_boundaries [OF c1 c2 c3 c4, of None] by simp
  let ?s91 = "example_services (one_vendor ''abcdefghijx'')"
  let ?a91 = "[\<lparr>code = ''V1'', name = ''abcdefghijx'', score = 91\<rparr>]"
  have d1: "''abcdefghijk'' \<noteq> []" by simp
  have d2: "findExactMatch (fetchMasterData ?s91 ''client'' (dataType_of ''vendor_name''))
              ''abcdefghijk'' = None"
    by code_simp
  have d3: "fuzzyAlternatives (fetchMasterData ?s91 ''client'' (dataType_of ''vendor_name''))
              ''abcdefghijk'' = Some ?a91"
    by code_simp
  have d4: "?a91 \<noteq> []" by simp
  have r91: "validateField ?s91 (JStr ''abcdefghijk'') ''vendor_name'' ''client'' None =
     Inr \<lparr>field = ''vendor_name'', extracted_value = JStr ''abcdefghijk'',
          matched_code = Some ''V1'', matched_name = Some ''abcdefghijx'',
          confidence = 91, status = fuzzy_high, alternatives = []\<rparr>"
    using validateField_tier_boundaries [OF d1 d2 d3 d4, of None] by simp
  show ?thesis using r85 r89 r90 r91 by simp
qed

text \<open>The claim as written fails at a top score of exactly 90: ten characters with one
  substitution score \<open>round(9 / 10 * 100) = 90\<close>, and the status is \<open>fuzzy_medium\<close>.\<close>

theorem validateField_score_90_counterexample:
  "validateField (example_services (one_vendor ''abcdefghix'')) (JStr ''abcdefghij'')
     ''vendor_name'' ''client'' None =
     Inr \<lparr>field = ''vendor_name'', extracted_value = JStr ''abcdefghij'',
          matched_code = Some ''V1'', matched_name = Some ''abcdefghix'',
          confidence = 90, status = fuzzy_medium, alternatives = []\<rparr>"
  by code_simp


subsection \<open>When a result carries a matched code\<close>

text \<open>
  Claim C8. In every result of \<open>validateField\<close>, \<open>matched_code\<close> is non-null if and only
  if the status is \<open>exact\<close>, \<open>fuzzy_high\<close> or \<open>fuzzy_medium\<close>, or the oracle selected a
  candidate (which gives \<open>fuzzy_medium\<close> or \<open>fuzzy_low\<close>), apart from the exception that the
  claim grants: a \<open>no_match\<close> result reached after the similarity pass reports the code of
  the top similarity candidate, which is null only when that code is the empty string.
  Under \<open>fuzzy_low\<close> the code is the one the oracle selected. A code under \<open>no_match\<close> is
  always that of the head of the similarity list, whose score is at most 85, and never
  comes from the oracle: the oracle was either not consulted (score at most 60) or
  selected nothing.
\<close>

theorem validateField_matched_code:
  assumes "validateField svc extractedValue fieldName clientId ctx = Inr r"
  shows "(matched_code r \<noteq> None \<longleftrightarrow>
            status r \<in> {exact, fuzzy_high, fuzzy_medium, fuzzy_low} \<or>
            (status r = no_match \<and>
             (\<exists>v alts. extractedValue = JStr v \<and> v \<noteq> [] \<and>
                fuzzyAlternatives (fetchMasterData svc clientId (dataType_of fieldName)) v =
                  Some alts \<and>
                alts \<noteq> [] \<and> code (hd alts) \<noteq> []))) \<and>
         (status r = fuzzy_low \<longrightarrow>
            (\<exists>v alts sel. extractedValue = JStr v \<and>
               fuzzyAlternatives (fetchMasterData svc clientId (dataType_of fieldName)) v =
                 Some alts \<and>
               selectBestMatchWithGPT svc v (take 10 alts) fieldName ctx = Some sel \<and>
               matched_code r = Some (code sel))) \<and>
         (status r = no_match \<and> matched_code r \<noteq> None \<longrightarrow>
            (\<exists>v alts. extractedValue = JStr v \<and>
               fuzzyAlternatives (fetchMasterData svc clientId (dataType_of fieldName)) v =
                 Some alts \<and>
               alts \<noteq> [] \<and> matched_code r = Some (code (hd alts)) \<and>
               score (hd alts) \<le> 85 \<and>
               (score (hd alts) > 60 \<longrightarrow>
                  selectBestMatchWithGPT svc v (take 10 alts) fieldName ctx = None)))"
proof (intro conjI)
  let ?md = "fetchMasterData svc clientId (dataType_of fieldName)"
  show "status r = fuzzy_low \<longrightarrow>
            (\<exists>v alts sel. extractedValue = JStr v \<and> fuzzyAlternatives ?md v = Some alts \<and>
               selectBestMatchWithGPT svc v (take 10 alts) fieldName ctx = Some sel \<and>
               matched_code r = Some (code sel))"
    using assms unfolding validateField_def Let_def
    by (auto split: if_splits jsval.splits option.splits list.splits simp: or_null_def)
  show "status r = no_match \<and> matched_code r \<noteq> None \<longrightarrow>
            (\<exists>v alts. extractedValue = JStr v \<and> fuzzyAlternatives ?md v = Some alts \<and>
               alts \<noteq> [] \<and> matched_code r = Some (code (hd alts)) \<and>
               score (hd alts) \<le> 85 \<and>
               (score (hd alts) > 60 \<longrightarrow>
                  selectBestMatchWithGPT svc v (take 10 alts) fieldName ctx = None))"
    using assms unfolding validateField_def Let_def
    by (auto split: if_splits jsval.splits option.splits list.splits simp: or_null_def)
  show "matched_code r \<noteq> None \<longleftrightarrow>
            status r \<in> {exact, fuzzy_high, fuzzy_medium, fuzzy_low} \<or>
            (status r = no_match \<and>
             (\<exists>v alts. extractedValue = JStr v \<and> v \<noteq> [] \<and>
                fuzzyAlternatives ?md v = Some alts \<and> alts \<noteq> [] \<and> code (hd alts) \<noteq> []))"
    using assms unfolding validateField_def Let_def
    by (auto split: if_splits jsval.splits option.splits list.splits
          simp: or_null_def fuzzyAlternatives_Nil)
qed

theorem validateField_matched_code_witness:
  "validateField (example_services example_tax_codes) (JStr ''Reduced'') ''tax_code''
     ''client'' None =
     Inr \<lparr>field = ''tax_code'', extracted_value = JStr ''Reduced'',
          matched_code = Some ''V0'', matched_name = Some ''Tax Exempt'',
          confidence = 10, status = no_match,
          alternatives = [\<lparr>code = ''V0'', name = ''Tax Exempt'', score = 10\<rparr>,
                          \<lparr>code = ''V1'', name = ''Standard Rate'', score = 8\<rparr>]\<rparr> \<and>
   (\<exists>v alts. JStr ''Reduced'' = JStr v \<and>
      fuzzyAlternatives
        (fetchMasterData (example_services example_tax_codes) ''client''
           (dataType_of ''tax_code'')) v = Some alts \<and>
      alts \<noteq> [] \<and> Some ''V0'' = Some (code (hd alts)) \<and> score (hd alts) \<le> 85)"
proof -
  let ?r = "\<lparr>field = ''tax_code'', extracted_value = JStr ''Reduced'',
          matched_code = Some ''V0'', matched_name = Some ''Tax Exempt'',
          confidence = 10, status = no_match,
          alternatives = [\<lparr>code = ''V0'', name = ''Tax Exempt'', score = 10\<rparr>,
                          \<lparr>code = ''V1'', name = ''Standard Rate'', score = 8\<rparr>]\<rparr>"
  have run: "validateField (example_services example_tax_codes) (JStr ''Reduced'') ''tax_code''
     ''client'' None = Inr ?r"
    by code_simp
  from validateField_matched_code [OF run] show ?thesis
    using run by auto
qed

text \<open>Two runs of the \<open>no_match\<close> fallback. No item is close to the value (top score 0)
  and the oracle is not consulted: the result reports the code of the top similarity
  candidate, and a null code when that candidate's code is the empty string.\<close>

lemma validateField_no_match_examples:
  "validateField (example_services [\<lparr>code = ''ACME01'', name = ''Acme'', description = None\<rparr>])
     (JStr ''Zylo'') ''vendor_name'' ''client'' None =
     Inr \<lparr>field = ''vendor_name'', extracted_value = JStr ''Zylo'',
          matched_code = Some ''ACME01'', matched_name = Some ''Acme'',
          confidence = 0, status = no_match,
          alternatives = [\<lparr>code = ''ACME01'', name = ''Acme'', score = 0\<rparr>]\<rparr> \<and>
   validateField (example_services [\<lparr>code = [], name = ''Acme'', description = None\<rparr>])
     (JStr ''Zylo'') ''vendor_name'' ''client'' None =
     Inr \<lparr>field = ''vendor_name'', extracted_value = JStr ''Zylo'',
          matched_code = None, matched_name = Some ''Acme'',
          confidence = 0, status = no_match,
          alternatives = [\<lparr>code = [], name = ''Acme'', score = 0\<rparr>]\<rparr>"
  by code_simp

subsection \<open>validateDocumentFields\<close>

lemma validate_each_dom:
  "validate_each svc ef cid ctx fs res = Inr m \<Longrightarrow>
     dom m = dom res \<union> {f \<in> set fs. truthy (ef f)}"
proof (induction fs arbitrary: res)
  case Nil
  then show ?case by simp
next
  case (Cons f fs)
  show ?case
  proof (cases "truthy (ef f)")
    case True
    with Cons.prems obtain r where
      r: "validateField svc (ef f) f cid (Some ctx) = Inr r"
      and rest: "validate_each svc ef cid ctx fs (res(f \<mapsto> r)) = Inr m"
      by (auto split: sum.splits)
    from Cons.IH [OF rest] True show ?thesis by (auto split: if_splits)
  next
    case False
    with Cons.prems have "validate_each svc ef cid ctx fs res = Inr m" by simp
    from Cons.IH [OF this] False show ?thesis by auto
  qed
qed

lemma validate_each_total:
  "(\<forall>f \<in> set fs. truthy (ef f) \<longrightarrow> (\<exists>s. ef f = JStr s)) \<Longrightarrow>
     \<exists>m. validate_each svc ef cid ctx fs res = Inr m"
proof (induction fs arbitrary: res)
  case Nil
  then show ?case by simp
next
  case (Cons f fs)
  show ?case
  proof (cases "truthy (ef f)")
    case True
    with Cons.prems obtain s where s: "ef f = JStr s" by auto
    obtain r where "validateField svc (JStr s) f cid (Some ctx) = Inr r"
      using validateField_string_total by blast
    with True s Cons show ?thesis by simp
  next
    case False
    with Cons show ?thesis by simp
  qed
qed

text \<open>
  Claim C10. For every input field map, a map returned by \<open>validateDocumentFields\<close> has an
  entry exactly for those of the 13 configured \<open>LIST_MATCH_FIELDS\<close> names whose extracted
  value is truthy: names that are not configured, and configured names whose value is
  empty or absent, get no entry at all. A map is returned whenever every truthy
  configured value is a string (a truthy value of another type can make \<open>validateField\<close>
  throw, and then no map is returned).
\<close>

theorem validateDocumentFields_entries:
  "(validateDocumentFields svc extractedFields clientId = Inr results \<longrightarrow>
      dom results = {f \<in> set (map fst LIST_MATCH_FIELDS). truthy (extractedFields f)}) \<and>
   ((\<forall>f \<in> set (map fst LIST_MATCH_FIELDS).
        truthy (extractedFields f) \<longrightarrow> (\<exists>s. extractedFields f = JStr s)) \<longrightarrow>
      (\<exists>m. validateDocumentFields svc extractedFields clientId = Inr m)) \<and>
   length (map fst LIST_MATCH_FIELDS) = 13 \<and> distinct (map fst LIST_MATCH_FIELDS)"
proof (intro conjI impI)
  assume "validateDocumentFields svc extractedFields clientId = Inr results"
  then show "dom results = {f \<in> set (map fst LIST_MATCH_FIELDS). truthy (extractedFields f)}"
    unfolding validateDocumentFields_def Let_def
    by (drule_tac validate_each_dom) simp
next
  assume "\<forall>f \<in> set (map fst LIST_MATCH_FIELDS).
        truthy (extractedFields f) \<longrightarrow> (\<exists>s. extractedFields f = JStr s)"
  then show "\<exists>m. validateDocumentFields svc extractedFields clientId = Inr m"
    unfolding validateDocumentFields_def Let_def
    by (rule validate_each_total)
next
  show "length (map fst LIST_MATCH_FIELDS) = 13" by (simp add: LIST_MATCH_FIELDS_def)
  show "distinct (map fst LIST_MATCH_FIELDS)" by (simp add: LIST_MATCH_FIELDS_def)
qed

theorem validateDocumentFields_entries_witness:
  "\<exists>m. validateDocumentFields (example_services example_tax_codes) example_fields ''client''
          = Inr m
      \<and> dom m = {''tax_code''}"
proof -
  let ?svc = "example_services example_tax_codes"
  note entries = validateDocumentFields_entries [of ?svc example_fields "''client''"]
  have "\<forall>f \<in> set (map fst LIST_MATCH_FIELDS).
          truthy (example_fields f) \<longrightarrow> (\<exists>s. example_fields f = JStr s)"
    by (simp add: example_fields_def)
  with entries obtain m where
    m: "validateDocumentFields ?svc example_fields ''client'' = Inr m"
    by blast
  with entries have "dom m = {f \<in> set (map fst LIST_MATCH_FIELDS). truthy (example_fields f)}"
    by blast
  also have "\<dots> = {''tax_code''}"
    by (auto simp: LIST_MATCH_FIELDS_def example_fields_def)
  finally show ?thesis using m by blast
qed


section \<open>Properties of the block-graph decoder\<close>

subsection \<open>Which value region a key is paired with\<close>

lemma fold_value_ids_last:
  "fold (\<lambda>valueId valueBlock. if map_has vm valueId then map_get vm valueId else valueBlock)
     ids acc =
   (case filter (map_has vm) ids of [] \<Rightarrow> acc | xs \<Rightarrow> map_get vm (last xs))"
  by (induction ids rule: rev_induct) (auto split: list.splits)

text \<open>
  Claim C2, as the code has it. \<open>findValueBlock\<close> visits every id of every \<open>VALUE\<close> edge of
  the key region in order and overwrites its result at each id that the value map holds:
  the key is paired with the LAST resolvable value region in edge iteration order (and
  with none when no id resolves).
\<close>

theorem findValueBlock_last_found:
  "findValueBlock keyBlock vm =
     (case filter (map_has vm)
             (concat (map Ids (filter (\<lambda>r. Type r = ''VALUE'') (Relationships keyBlock)))) of
        [] \<Rightarrow> None
      | ids \<Rightarrow> map_get vm (last ids))"
proof -
  have "fold (\<lambda>relationship valueBlock.
             if Type relationship = ''VALUE'' then
               fold (\<lambda>valueId valueBlock.
                       if map_has vm valueId then map_get vm valueId
                       else valueBlock)
                 (Ids relationship) valueBlock
             else valueBlock) rels None =
     (case filter (map_has vm)
             (concat (map Ids (filter (\<lambda>r. Type r = ''VALUE'') rels))) of
        [] \<Rightarrow> None
      | ids \<Rightarrow> map_get vm (last ids))" for rels :: "relationship list"
    by (induction rels rule: rev_induct) (auto simp: fold_value_ids_last split: list.splits)
  then show ?thesis by (simp add: findValueBlock_def)
qed

text \<open>The claim as written fails: the key \<open>Total\<close> has the value regions \<open>v1\<close> (text 10)
  and \<open>v2\<close> (text 20) in this order, and it is paired with \<open>v2\<close>.\<close>

theorem findValueBlock_first_found_counterexample:
  "findValueBlock (key_block ''k1'' [''v1'', ''v2''] [''w1''])
     (valueMap (fold index_block two_values_form empty_maps)) =
     Some (value_block ''v2'' [''w3'']) \<and>
   keyValues (extractText two_values_form) ''Total'' = Some ''20''"
  by code_simp

subsection \<open>Table reconstruction\<close>

lemma placeCell_at:
  "(case props (placeCell c rs) r of None \<Rightarrow> None | Some row \<Rightarrow> props row p) =
     (if r = int (rowIndex c) - 1 \<and> p = int (columnIndex c) - 1 then Some (text' c)
      else (case props rs r of None \<Rightarrow> None | Some row \<Rightarrow> props row p))"
  by (auto simp: placeCell_def array_put_def empty_array_def Let_def split: option.splits)

lemma fold_placeCell_at:
  "(case props (fold placeCell cells rs) r of None \<Rightarrow> None | Some row \<Rightarrow> props row p) =
     (case filter (\<lambda>c. int (rowIndex c) - 1 = r \<and> int (columnIndex c) - 1 = p) cells of
        [] \<Rightarrow> (case props rs r of None \<Rightarrow> None | Some row \<Rightarrow> props row p)
      | cs \<Rightarrow> Some (text' (last cs)))"
proof (induction cells rule: rev_induct)
  case Nil
  then show ?case by simp
next
  case (snoc c cells)
  let ?hit = "\<lambda>c. int (rowIndex c) - 1 = r \<and> int (columnIndex c) - 1 = p"
  have step: "fold placeCell (cells @ [c]) rs = placeCell c (fold placeCell cells rs)"
    by simp
  show ?case
  proof (cases "?hit c")
    case True
    then have f: "filter ?hit (cells @ [c]) = filter ?hit cells @ [c]" by simp
    show ?thesis
      unfolding step placeCell_at f using True by (cases "filter ?hit cells") simp_all
  next
    case False
    then have "filter ?hit (cells @ [c]) = filter ?hit cells" by simp
    with False snoc.IH show ?thesis
      unfolding step placeCell_at by auto
  qed
qed

lemma organizeCells_at:
  "(case props (organizeCells cells) r of None \<Rightarrow> None | Some row \<Rightarrow> props row p) =
     (case filter (\<lambda>c. int (rowIndex c) - 1 = r \<and> int (columnIndex c) - 1 = p) cells of
        [] \<Rightarrow> None
      | cs \<Rightarrow> Some (text' (last cs)))"
  using fold_placeCell_at [where cells = cells and rs = empty_array and r = r and p = p]
  by (simp add: organizeCells_def empty_array_def split: list.splits)

lemma set_map_filter: "set (List.map_filter f xs) = {y. \<exists>x \<in> set xs. f x = Some y}"
  by (induction xs) (auto split: option.splits)

lemma set_array_filter:
  "set (array_filter P a) = {x. \<exists>k < len a. props a (int k) = Some x \<and> P x}"
  unfolding array_filter_def
  by (auto simp: set_map_filter split: option.splits if_splits)

text \<open>
  Claim C6, as the code has it. Every row that survives the filter is one of the allocated
  rows, has a length above 0, and at each position holds the text of the last cell placed
  there; a position that no cell placement wrote is a hole (it reads as \<open>undefined\<close>, and
  serialises as \<open>null\<close>), not the empty string.
\<close>

theorem extractTable_row_positions:
  assumes "row \<in> set (rows (extractTable tableBlock cm bm))"
  shows "\<exists>r. props (organizeCells (collectCells tableBlock cm bm)) (int r) = Some row \<and>
             len row > 0 \<and>
             (\<forall>p. props row (int p) =
                (case filter (\<lambda>c. rowIndex c = r + 1 \<and> columnIndex c = p + 1)
                        (collectCells tableBlock cm bm) of
                   [] \<Rightarrow> None
                 | cs \<Rightarrow> Some (text' (last cs))))"
proof -
  let ?cells = "collectCells tableBlock cm bm"
  from assms obtain r where r: "props (organizeCells ?cells) (int r) = Some row" "len row > 0"
    by (auto simp: extractTable_def Let_def set_array_filter)
  have "props row (int p) =
          (case filter (\<lambda>c. rowIndex c = r + 1 \<and> columnIndex c = p + 1) ?cells of
             [] \<Rightarrow> None | cs \<Rightarrow> Some (text' (last cs)))" for p
  proof -
    have eq: "(\<lambda>c. int (rowIndex c) - 1 = int r \<and> int (columnIndex c) - 1 = int p) =
          (\<lambda>c. rowIndex c = r + 1 \<and> columnIndex c = p + 1)"
      by (auto simp: fun_eq_iff)
    show ?thesis
      using organizeCells_at [where cells = ?cells and r = "int r" and p = "int p"] r(1)
      unfolding eq by simp
  qed
  with r show ?thesis by blast
qed

theorem extractTable_row_positions_witness:
  "\<exists>r. props (organizeCells
               (collectCells (table_block ''t1'' [''c1''])
                  (cellMap (fold index_block sparse_table empty_maps))
                  (blockMap (fold index_block sparse_table empty_maps)))) (int r) =
          Some (hd (rows (extractTable (table_block ''t1'' [''c1''])
                            (cellMap (fold index_block sparse_table empty_maps))
                            (blockMap (fold index_block sparse_table empty_maps))))) \<and>
        len (hd (rows (extractTable (table_block ''t1'' [''c1''])
                            (cellMap (fold index_block sparse_table empty_maps))
                            (blockMap (fold index_block sparse_table empty_maps))))) > 0 \<and>
        (\<forall>p. props (hd (rows (extractTable (table_block ''t1'' [''c1''])
                            (cellMap (fold index_block sparse_table empty_maps))
                            (blockMap (fold index_block sparse_table empty_maps))))) (int p) =
           (case filter (\<lambda>c. rowIndex c = r + 1 \<and> columnIndex c = p + 1)
                   (collectCells (table_block ''t1'' [''c1''])
                      (cellMap (fold index_block sparse_table empty_maps))
                      (blockMap (fold index_block sparse_table empty_maps))) of
              [] \<Rightarrow> None
            | cs \<Rightarrow> Some (text' (last cs))))"
proof -
  let ?t = "extractTable (table_block ''t1'' [''c1''])
              (cellMap (fold index_block sparse_table empty_maps))
              (blockMap (fold index_block sparse_table empty_maps))"
  have "length (rows ?t) = 1" by code_simp
  then have "hd (rows ?t) \<in> set (rows ?t)" by (cases "rows ?t") auto
  from extractTable_row_positions [OF this] show ?thesis .
qed

text \<open>The claim as written fails: the only cell is at row 1, column 2; the surviving row
  has length 2 and its position 0, never written, is a hole and not the empty string.\<close>

theorem extractTable_hole_counterexample:
  "map array_items (rows (hd (tables (extractText sparse_table)))) = [[None, Some ''B'']]"
  by code_simp

subsection \<open>Cells without an index\<close>

lemma same_visible_empty: "same_visible empty_array empty_array"
  by (simp add: same_visible_def empty_array_def)

lemma same_visible_both:
  assumes "same_visible rs1 rs2" "indexed c"
  shows "same_visible (placeCell c rs1) (placeCell c rs2)"
proof -
  obtain r p where rp: "rowIndex c = Suc r" "columnIndex c = Suc p"
    using assms(2) by (auto simp: indexed_def) (metis Suc_pred' less_eq_Suc_le)
  show ?thesis
    using assms(1) unfolding same_visible_def
    apply (intro conjI allI)
    subgoal by (auto simp: placeCell_def array_put_def Let_def rp split: option.splits)
    subgoal by (auto simp: placeCell_def array_put_def Let_def rp split: option.splits)
    subgoal for k
      apply (erule conjE)+
      apply (drule_tac x = k in spec)+
      apply (cases "k = r")
       apply (auto simp: placeCell_def array_put_def Let_def rp empty_array_def
                   split: option.splits)
      done
    done
qed

lemma same_visible_skip:
  assumes "same_visible rs1 rs2" "\<not> indexed c"
  shows "same_visible (placeCell c rs1) rs2"
proof (cases "rowIndex c")
  case 0
  show ?thesis
    using assms(1) unfolding same_visible_def
    apply (intro conjI allI)
    subgoal by (auto simp: placeCell_def array_put_def Let_def 0 split: option.splits)
    subgoal by simp
    subgoal for k
      apply (erule conjE)+
      apply (drule_tac x = k in spec)+
      apply (auto simp: placeCell_def array_put_def Let_def 0 split: option.splits)
      done
    done
next
  case (Suc r)
  with assms(2) have col: "columnIndex c = 0" by (simp add: indexed_def)
  show ?thesis
    using assms(1) unfolding same_visible_def
    apply (intro conjI allI)
    subgoal by (auto simp: placeCell_def array_put_def Let_def Suc col split: option.splits)
    subgoal by simp
    subgoal for k
      apply (erule conjE)+
      apply (drule_tac x = k in spec)+
      apply (cases "k = r")
       apply (auto simp: placeCell_def array_put_def Let_def Suc col empty_array_def
                   split: option.splits)
      done
    done
qed

lemma same_visible_fold:
  "same_visible rs1 rs2 \<Longrightarrow>
     same_visible (fold placeCell cells rs1) (fold placeCell (filter indexed cells) rs2)"
proof (induction cells arbitrary: rs1 rs2)
  case Nil
  then show ?case by simp
next
  case (Cons c cells)
  then show ?case
    by (cases "indexed c") (auto intro: same_visible_both same_visible_skip)
qed

lemma map_filter_upt_extend:
  assumes "n2 \<le> n1" "\<And>k. n2 \<le> k \<Longrightarrow> k < n1 \<Longrightarrow> f k = None"
  shows "List.map_filter f [0 ..< n1] = List.map_filter f [0 ..< n2]"
proof -
  have "[0 ..< n1] = [0 ..< n2] @ [n2 ..< n1]"
    using assms(1) by (metis le_add_diff_inverse upt_add_eq_append zero_le)
  moreover have "List.map_filter f [n2 ..< n1] = []"
    using assms(2) by (auto simp: List.map_filter_def filter_empty_conv)
  ultimately show ?thesis by (simp add: List.map_filter_def)
qed

lemma map_map_filter:
  "map g (List.map_filter f xs) = List.map_filter (\<lambda>x. map_option g (f x)) xs"
  by (induction xs) (auto split: option.splits)

lemma array_items_cong:
  "len a = len b \<Longrightarrow> (\<forall>p. props a (int p) = props b (int p)) \<Longrightarrow> array_items a = array_items b"
  by (simp add: array_items_def)

lemma same_visible_rows:
  assumes "same_visible rs1 rs2"
  shows "map array_items (array_filter (\<lambda>row. len row > 0) rs1) =
         map array_items (array_filter (\<lambda>row. len row > 0) rs2)"
proof -
  let ?f = "\<lambda>rs k. map_option array_items
              (case props rs (int k) of None \<Rightarrow> None
               | Some x \<Rightarrow> if len x > 0 then Some x else None)"
  have eq: "?f rs1 k = ?f rs2 k" for k
    using assms unfolding same_visible_def
    apply (elim conjE)
    apply (drule_tac x = k in spec)+
    apply (auto split: option.splits intro: array_items_cong)
    done
  have none: "?f rs2 k = None" if "len rs2 \<le> k" for k
    using assms that unfolding same_visible_def by auto
  have "map array_items (array_filter (\<lambda>row. len row > 0) rs1) =
          List.map_filter (?f rs1) [0 ..< len rs1]"
    by (simp add: array_filter_def map_map_filter)
  also have "\<dots> = List.map_filter (?f rs1) [0 ..< len rs2]"
    using assms none eq by (intro map_filter_upt_extend) (auto simp: same_visible_def)
  also have "\<dots> = List.map_filter (?f rs2) [0 ..< len rs2]"
    using eq by presburger
  also have "\<dots> = map array_items (array_filter (\<lambda>row. len row > 0) rs2)"
    by (simp add: array_filter_def map_map_filter)
  finally show ?thesis .
qed

text \<open>
  Claim C5, as the code has it. A table cell region whose row index or column index is
  absent is recorded with index 0, not 1. Its text is then written under the key \<open>-1\<close>, which
  is no array position, so the cell contributes nothing to the reconstructed table: the
  rows that come out, read position by position, are those built from the cells whose two
  indices are at least 1.
\<close>

theorem missing_index_cell_not_placed:
  "rowIndex (cell_of (c\<lparr>RowIndex := None\<rparr>) bm) = 0 \<and>
   columnIndex (cell_of (c\<lparr>ColumnIndex := None\<rparr>) bm) = 0 \<and>
   map array_items (rows (extractTable tableBlock cm bm)) =
     map array_items
       (array_filter (\<lambda>row. len row > 0)
          (organizeCells
             (filter (\<lambda>c. rowIndex c \<ge> 1 \<and> columnIndex c \<ge> 1)
                (collectCells tableBlock cm bm))))"
proof -
  have "indexed = (\<lambda>c. rowIndex c \<ge> 1 \<and> columnIndex c \<ge> 1)"
    by (auto simp: indexed_def fun_eq_iff)
  then show ?thesis
    using same_visible_rows [OF same_visible_fold [OF same_visible_empty]]
    by (simp add: cell_of_def or_default_def extractTable_def organizeCells_def Let_def)
qed

text \<open>The claim as written fails: the cell \<open>x\<close> without a row index comes after the cell
  \<open>A\<close> of row 1, column 1, and position (0, 0) still holds \<open>A\<close>; a table whose only cell
  lacks its column index has no row at all and is left out of the result.\<close>

theorem missing_index_counterexample:
  "map array_items (rows (hd (tables (extractText unindexed_table)))) = [[Some ''A'']] \<and>
   rawCells (hd (tables (extractText unindexed_table))) =
     [\<lparr>rowIndex = 1, columnIndex = 1, text' = ''A'', rowSpan = 1, columnSpan = 1\<rparr>,
      \<lparr>rowIndex = 0, columnIndex = 1, text' = ''x'', rowSpan = 1, columnSpan = 1\<rparr>] \<and>
   length (tables (extractText lone_unindexed_table)) = 0"
  by code_simp


subsection \<open>Reordering the input\<close>

lemma map_has_entries: "map_has (map entry bs) k = (k \<in> Id' ` set bs)"
  by (induction bs) (auto simp: map_has_def entry_def)

lemma map_set_fresh: "k \<notin> Id' ` set bs \<Longrightarrow> map_set k v (map entry bs) = map entry bs @ [(k, v)]"
  by (simp add: map_set_def map_has_entries)

lemma index_blocks_distinct:
  "distinct (map Id' bs) \<Longrightarrow>
     fold index_block bs empty_maps =
       \<lparr>blockMap = map entry bs,
        keyMap = map entry (filter is_key bs),
        valueMap = map entry (filter is_value bs),
        tableMap = map entry (filter (\<lambda>b. BlockType b = ''TABLE'') bs),
        cellMap = map entry (filter (\<lambda>b. BlockType b = ''CELL'') bs)\<rparr>"
proof (induction bs rule: rev_induct)
  case Nil
  then show ?case by (simp add: empty_maps_def)
next
  case (snoc b bs)
  then have fresh: "Id' b \<notin> Id' ` set bs" and IH: "fold index_block bs empty_maps =
       \<lparr>blockMap = map entry bs,
        keyMap = map entry (filter is_key bs),
        valueMap = map entry (filter is_value bs),
        tableMap = map entry (filter (\<lambda>b. BlockType b = ''TABLE'') bs),
        cellMap = map entry (filter (\<lambda>b. BlockType b = ''CELL'') bs)\<rparr>"
    by auto
  have fresh': "Id' b \<notin> Id' ` set (filter P bs)" for P
    using fresh by auto
  have "fold index_block (bs @ [b]) empty_maps = index_block b (fold index_block bs empty_maps)"
    by simp
  also have "\<dots> = index_block b \<lparr>blockMap = map entry bs,
        keyMap = map entry (filter is_key bs),
        valueMap = map entry (filter is_value bs),
        tableMap = map entry (filter (\<lambda>b. BlockType b = ''TABLE'') bs),
        cellMap = map entry (filter (\<lambda>b. BlockType b = ''CELL'') bs)\<rparr>"
    by (simp only: IH)
  also have "\<dots> = \<lparr>blockMap = map entry (bs @ [b]),
        keyMap = map entry (filter is_key (bs @ [b])),
        valueMap = map entry (filter is_value (bs @ [b])),
        tableMap = map entry (filter (\<lambda>b. BlockType b = ''TABLE'') (bs @ [b])),
        cellMap = map entry (filter (\<lambda>b. BlockType b = ''CELL'') (bs @ [b]))\<rparr>"
    by (simp add: index_block_def Let_def map_set_fresh [OF fresh] map_set_fresh [OF fresh']
        is_key_def is_value_def entry_def)
  finally show ?case .
qed

lemma getText_cong: "map_of bm1 = map_of bm2 \<Longrightarrow> getText b bm1 = getText b bm2"
  unfolding getText_def map_get_def by (simp cong del: if_weak_cong)

lemma findValueBlock_cong:
  "map_of vm1 = map_of vm2 \<Longrightarrow> findValueBlock k vm1 = findValueBlock k vm2"
  unfolding findValueBlock_def map_get_def map_has_def by (simp cong del: if_weak_cong)

lemma extractTable_cong:
  "map_of cm1 = map_of cm2 \<Longrightarrow> map_of bm1 = map_of bm2 \<Longrightarrow>
     extractTable t cm1 bm1 = extractTable t cm2 bm2"
  unfolding extractTable_def collectCells_def cell_of_def map_get_def
  by (simp add: getText_cong [of bm1 bm2] cong del: if_weak_cong option.case_cong_weak)

lemma distinct_ids_perm:
  assumes "distinct (map Id' bs)" "mset bs' = mset bs"
  shows "distinct (map Id' bs')"
proof -
  have "mset (map Id' bs') = mset (map Id' bs)" using assms(2) by simp
  then show ?thesis using assms(1) by (metis mset_eq_imp_distinct_iff)
qed

lemma map_of_entries_perm:
  assumes "distinct (map Id' bs)" "mset bs' = mset bs"
  shows "map_of (map entry (filter P bs')) = map_of (map entry (filter P bs))"
proof -
  have fst: "map fst (map entry (filter P xs)) = map Id' (filter P xs)" for xs
    by (simp add: entry_def comp_def)
  have d1: "distinct (map fst (map entry (filter P bs)))"
    unfolding fst using assms(1) by (simp add: distinct_map_filter)
  have d2: "distinct (map fst (map entry (filter P bs')))"
    unfolding fst using distinct_ids_perm [OF assms] by (simp add: distinct_map_filter)
  have "set bs' = set bs" using assms(2) by (rule mset_eq_setD)
  then have "set (map entry (filter P bs')) = set (map entry (filter P bs))" by simp
  with map_of_inject_set [OF d2 d1] show ?thesis by simp
qed


lemma scan_blocks:
  "fold scan_block bs empty_scan =
     \<lparr>fullText = concat (map (\<lambda>b. text_or_empty b @ [CHR 0x0A])
                         (filter (\<lambda>b. BlockType b = ''LINE'' \<and> text_or_empty b \<noteq> []) bs)),
      scan_layout =
        \<lparr>titles = map text_or_empty (filter (\<lambda>b. BlockType b = ''LAYOUT_TITLE'') bs),
         headers = map text_or_empty (filter (\<lambda>b. BlockType b = ''LAYOUT_HEADER'') bs),
         sections = map text_or_empty (filter (\<lambda>b. BlockType b = ''LAYOUT_SECTION_HEADER'') bs),
         lists' = map text_or_empty (filter (\<lambda>b. BlockType b = ''LAYOUT_LIST'') bs)\<rparr>,
      scan_signatures =
        map (\<lambda>b. (Confidence b, Geometry b)) (filter (\<lambda>b. BlockType b = ''SIGNATURE'') bs)\<rparr>"
proof (induction bs rule: rev_induct)
  case Nil
  then show ?case by (simp add: empty_scan_def)
next
  case (snoc b bs)
  have "fold scan_block (bs @ [b]) empty_scan = scan_block b (fold scan_block bs empty_scan)"
    by simp
  also have "\<dots> = scan_block b \<lparr>fullText = concat (map (\<lambda>b. text_or_empty b @ [CHR 0x0A])
                         (filter (\<lambda>b. BlockType b = ''LINE'' \<and> text_or_empty b \<noteq> []) bs)),
      scan_layout =
        \<lparr>titles = map text_or_empty (filter (\<lambda>b. BlockType b = ''LAYOUT_TITLE'') bs),
         headers = map text_or_empty (filter (\<lambda>b. BlockType b = ''LAYOUT_HEADER'') bs),
         sections = map text_or_empty (filter (\<lambda>b. BlockType b = ''LAYOUT_SECTION_HEADER'') bs),
         lists' = map text_or_empty (filter (\<lambda>b. BlockType b = ''LAYOUT_LIST'') bs)\<rparr>,
      scan_signatures =
        map (\<lambda>b. (Confidence b, Geometry b)) (filter (\<lambda>b. BlockType b = ''SIGNATURE'') bs)\<rparr>"
    by (simp only: snoc.IH)
  also have "\<dots> = \<lparr>fullText = concat (map (\<lambda>b. text_or_empty b @ [CHR 0x0A])
                         (filter (\<lambda>b. BlockType b = ''LINE'' \<and> text_or_empty b \<noteq> []) (bs @ [b]))),
      scan_layout =
        \<lparr>titles = map text_or_empty (filter (\<lambda>b. BlockType b = ''LAYOUT_TITLE'') (bs @ [b])),
         headers = map text_or_empty (filter (\<lambda>b. BlockType b = ''LAYOUT_HEADER'') (bs @ [b])),
         sections = map text_or_empty (filter (\<lambda>b. BlockType b = ''LAYOUT_SECTION_HEADER'') (bs @ [b])),
         lists' = map text_or_empty (filter (\<lambda>b. BlockType b = ''LAYOUT_LIST'') (bs @ [b]))\<rparr>,
      scan_signatures =
        map (\<lambda>b. (Confidence b, Geometry b)) (filter (\<lambda>b. BlockType b = ''SIGNATURE'') (bs @ [b]))\<rparr>"
    by (simp add: scan_block_def Let_def)
  finally show ?case .
qed

lemma fold_entries: "fold (\<lambda>e acc. f (snd e) acc) (map entry bs) a = fold f bs a"
  by (induction bs arbitrary: a) (simp_all add: entry_def)

lemma add_table_fold:
  "fold (add_table m) tbs ts =
     ts @ filter (\<lambda>t. length (rows t) > 0) (map (\<lambda>b. extractTable b (cellMap m) (blockMap m)) tbs)"
  by (induction tbs arbitrary: ts) (simp_all add: add_table_def Let_def)

lemma add_key_value_cong:
  assumes "map_of (valueMap m1) = map_of (valueMap m2)"
    and "map_of (blockMap m1) = map_of (blockMap m2)"
  shows "add_key_value m1 = add_key_value m2"
proof -
  have g: "getText b (blockMap m1) = getText b (blockMap m2)" for b
    using assms(2) by (rule getText_cong)
  have f: "findValueBlock k (valueMap m1) = findValueBlock k (valueMap m2)" for k
    using assms(1) by (rule findValueBlock_cong)
  show ?thesis
    unfolding fun_eq_iff add_key_value_def g f by simp
qed

lemma add_key_value_commute:
  assumes "k1 = k2 \<or> getText k1 (blockMap m) \<noteq> getText k2 (blockMap m) \<or> getText k1 (blockMap m) = []"
  shows "add_key_value m k1 \<circ> add_key_value m k2 = add_key_value m k2 \<circ> add_key_value m k1"
  using assms
  by (auto simp: fun_eq_iff add_key_value_def set_property_def Let_def split: option.splits)


text \<open>
  Claim C7, as the code has it. Let the regions have unique identifiers, and let no two
  key-marker regions resolve to the same non-empty key text. Then decoding a permutation
  of the collection yields the same \<open>keyValues\<close> mapping, the same tables up to their order
  in the table list, and the same layout texts up to their order within each of the four
  layout sequences. The order of a layout sequence follows the input order of its regions
  (shown for the titles), just as the full text is the lines in input order.
\<close>

theorem extractText_reordered:
  assumes "distinct (map Id' blocks)"
    and "mset blocks' = mset blocks"
    and "\<forall>e1 \<in> set (keyMap (fold index_block blocks empty_maps)).
         \<forall>e2 \<in> set (keyMap (fold index_block blocks empty_maps)).
           e1 = e2 \<or>
           getText (snd e1) (blockMap (fold index_block blocks empty_maps)) \<noteq>
             getText (snd e2) (blockMap (fold index_block blocks empty_maps)) \<or>
           getText (snd e1) (blockMap (fold index_block blocks empty_maps)) = []"
  shows "keyValues (extractText blocks') = keyValues (extractText blocks) \<and>
         mset (tables (extractText blocks')) = mset (tables (extractText blocks)) \<and>
         mset (titles (layout (extractText blocks'))) = mset (titles (layout (extractText blocks))) \<and>
         mset (headers (layout (extractText blocks'))) = mset (headers (layout (extractText blocks))) \<and>
         mset (sections (layout (extractText blocks'))) = mset (sections (layout (extractText blocks))) \<and>
         mset (lists' (layout (extractText blocks'))) = mset (lists' (layout (extractText blocks))) \<and>
         layout (extractText blocks') =
           \<lparr>titles = map text_or_empty (filter (\<lambda>b. BlockType b = ''LAYOUT_TITLE'') blocks'),
            headers = map text_or_empty (filter (\<lambda>b. BlockType b = ''LAYOUT_HEADER'') blocks'),
            sections =
              map text_or_empty (filter (\<lambda>b. BlockType b = ''LAYOUT_SECTION_HEADER'') blocks'),
            lists' = map text_or_empty (filter (\<lambda>b. BlockType b = ''LAYOUT_LIST'') blocks')\<rparr> \<and>
         text'' (extractText blocks') =
           concat (map (\<lambda>b. text_or_empty b @ [CHR 0x0A])
                     (filter (\<lambda>b. BlockType b = ''LINE'' \<and> text_or_empty b \<noteq> []) blocks'))"
proof -
  let ?m = "fold index_block blocks empty_maps"
  let ?m' = "fold index_block blocks' empty_maps"
  note d' = distinct_ids_perm [OF assms(1,2)]
  note m = index_blocks_distinct [OF assms(1)]
  note m' = index_blocks_distinct [OF d']
  have bm: "map_of (blockMap ?m') = map_of (blockMap ?m)"
    using map_of_entries_perm [OF assms(1,2), of "\<lambda>b. True"] by (simp add: m m')
  have vm: "map_of (valueMap ?m') = map_of (valueMap ?m)"
    using map_of_entries_perm [OF assms(1,2), of is_value] by (simp add: m m')
  have cm: "map_of (cellMap ?m') = map_of (cellMap ?m)"
    using map_of_entries_perm [OF assms(1,2)] by (simp add: m m')
  have akv: "add_key_value ?m' = add_key_value ?m"
    using vm bm by (rule add_key_value_cong)
  have keys: "mset (filter is_key blocks') = mset (filter is_key blocks)"
    using assms(2) by simp
  have comm: "add_key_value ?m k1 \<circ> add_key_value ?m k2 = add_key_value ?m k2 \<circ> add_key_value ?m k1"
    if "k1 \<in> set (filter is_key blocks')" "k2 \<in> set (filter is_key blocks')" for k1 k2
  proof -
    have "set (filter is_key blocks') = set (filter is_key blocks)"
      using keys by (rule mset_eq_setD)
    with that have "k1 \<in> set (filter is_key blocks)" "k2 \<in> set (filter is_key blocks)"
      by auto
    then have "entry k1 \<in> set (keyMap ?m)" "entry k2 \<in> set (keyMap ?m)"
      by (simp_all add: m)
    with assms(3) have "entry k1 = entry k2 \<or>
        getText k1 (blockMap ?m) \<noteq> getText k2 (blockMap ?m) \<or> getText k1 (blockMap ?m) = []"
      by (fastforce simp: entry_def)
    then show ?thesis
      by (intro add_key_value_commute) (auto simp: entry_def)
  qed
  have kv: "keyValues (extractText blocks') = keyValues (extractText blocks)"
  proof -
    have "keyValues (extractText blocks') = fold (add_key_value ?m) (filter is_key blocks') Map.empty"
      by (simp add: extractText_def Let_def akv) (simp add: m' fold_entries)
    also have "\<dots> = fold (add_key_value ?m) (filter is_key blocks) Map.empty"
      using fold_multiset_equiv [OF comm keys] by simp
    also have "\<dots> = keyValues (extractText blocks)"
      by (simp add: extractText_def Let_def) (simp add: m fold_entries)
    finally show ?thesis .
  qed
  have et: "extractTable b (cellMap ?m') (blockMap ?m') = extractTable b (cellMap ?m) (blockMap ?m)"
    for b using cm bm by (rule extractTable_cong)
  have tb: "tables (extractText bs) =
      filter (\<lambda>t. length (rows t) > 0)
        (map (\<lambda>b. extractTable b (cellMap (fold index_block bs empty_maps))
                     (blockMap (fold index_block bs empty_maps)))
           (filter (\<lambda>b. BlockType b = ''TABLE'') bs))"
    if "distinct (map Id' bs)" for bs
    using add_table_fold [of "fold index_block bs empty_maps" _ "[]"]
    by (simp add: extractText_def Let_def) (simp add: index_blocks_distinct [OF that] fold_entries)
  have tables: "mset (tables (extractText blocks')) = mset (tables (extractText blocks))"
    unfolding tb [OF assms(1)] tb [OF d'] et using assms(2) by simp
  have lay: "layout (extractText bs) =
        \<lparr>titles = map text_or_empty (filter (\<lambda>b. BlockType b = ''LAYOUT_TITLE'') bs),
         headers = map text_or_empty (filter (\<lambda>b. BlockType b = ''LAYOUT_HEADER'') bs),
         sections = map text_or_empty (filter (\<lambda>b. BlockType b = ''LAYOUT_SECTION_HEADER'') bs),
         lists' = map text_or_empty (filter (\<lambda>b. BlockType b = ''LAYOUT_LIST'') bs)\<rparr>" for bs
    by (simp add: extractText_def Let_def scan_blocks)
  have full: "text'' (extractText bs) = concat (map (\<lambda>b. text_or_empty b @ [CHR 0x0A])
                     (filter (\<lambda>b. BlockType b = ''LINE'' \<and> text_or_empty b \<noteq> []) bs))" for bs
    by (simp add: extractText_def Let_def scan_blocks)
  show ?thesis
    using kv tables assms(2) by (simp add: lay full)
qed


theorem extractText_reordered_witness:
  "keyValues (extractText (rev small_document)) = keyValues (extractText small_document) \<and>
   mset (tables (extractText (rev small_document))) = mset (tables (extractText small_document)) \<and>
   mset (titles (layout (extractText (rev small_document)))) =
     mset (titles (layout (extractText small_document))) \<and>
   text'' (extractText (rev small_document)) =
     concat (map (\<lambda>b. text_or_empty b @ [CHR 0x0A])
               (filter (\<lambda>b. BlockType b = ''LINE'' \<and> text_or_empty b \<noteq> [])
                  (rev small_document)))"
proof -
  have d: "distinct (map Id' small_document)" by code_simp
  have p: "mset (rev small_document) = mset small_document" by simp
  have k: "\<forall>e1 \<in> set (keyMap (fold index_block small_document empty_maps)).
         \<forall>e2 \<in> set (keyMap (fold index_block small_document empty_maps)).
           e1 = e2 \<or>
           getText (snd e1) (blockMap (fold index_block small_document empty_maps)) \<noteq>
             getText (snd e2) (blockMap (fold index_block small_document empty_maps)) \<or>
           getText (snd e1) (blockMap (fold index_block small_document empty_maps)) = []"
    by code_simp
  from extractText_reordered [OF d p k] show ?thesis by blast
qed

text \<open>The claim as written fails: swapping two titles swaps the title sequence, and with
  two keys of the same text the mapping depends on which key comes last.\<close>

theorem extractText_reordered_counterexample:
  "titles (layout (extractText two_titles)) = [''Invoice'', ''Terms''] \<and>
   titles (layout (extractText (rev two_titles))) = [''Terms'', ''Invoice''] \<and>
   keyValues (extractText duplicate_keys) ''Total'' = Some ''20'' \<and>
   keyValues (extractText (rev duplicate_keys)) ''Total'' = Some ''10''"
  by code_simp

end
